theory Spec2Isabelle
  imports Main "HOL-Library.Multiset"
begin

section \<open>Byte strings and the result-page scan\<close>

text \<open>
  A Go \<^verbatim>\<open>[]byte\<close> and a Go \<^verbatim>\<open>string\<close> are both sequences of bytes; they are
  modelled as \<^typ>\<open>char list\<close> (an Isabelle \<^typ>\<open>char\<close> is one byte).
\<close>

type_synonym bytes = string

text \<open>
  \<^verbatim>\<open>bytes.Index(s, sep)\<close> of the Go standard library: the index of the first instance of
  \<open>sep\<close> in \<open>s\<close>, or \<open>-1\<close> when \<open>sep\<close> is not present in \<open>s\<close>.
\<close>

fun bytes_Index :: "bytes \<Rightarrow> bytes \<Rightarrow> int" where
  "bytes_Index [] sep = (if sep = [] then 0 else - 1)"
| "bytes_Index (c # s) sep =
     (if take (length sep) (c # s) = sep then 0
      else (let i = bytes_Index s sep in if i = - 1 then - 1 else i + 1))"

text \<open>
  Go slice expressions \<^verbatim>\<open>s[lo:]\<close> and \<^verbatim>\<open>s[lo:hi]\<close>. Out of range they panic at run time;
  the model returns \<open>None\<close> there.
\<close>

definition slice_from :: "bytes \<Rightarrow> int \<Rightarrow> bytes option" where
  "slice_from s lo =
     (if 0 \<le> lo \<and> lo \<le> int (length s) then Some (drop (nat lo) s) else None)"

definition slice :: "bytes \<Rightarrow> int \<Rightarrow> int \<Rightarrow> bytes option" where
  "slice s lo hi =
     (if 0 \<le> lo \<and> lo \<le> hi \<and> hi \<le> int (length s)
      then Some (take (nat (hi - lo)) (drop (nat lo) s)) else None)"

text \<open>
  The errors of the package. Go builds them with \<^verbatim>\<open>errors.New\<close> and \<^verbatim>\<open>fmt.Errorf\<close>;
  there is one constructor for every message of \<^verbatim>\<open>photofunia.go\<close>, carrying what the
  message is formatted with. Two pairs of call sites share a message and therefore a
  constructor: the non-OK status of the upload and of the effect invocation
  (\<open>NonOKStatus\<close>), and the failed read of the input image and of the downloaded image
  (\<open>ReadImageFailed\<close>). \<open>SliceBoundsPanic\<close> stands for the run-time panic of a slice
  expression out of range.
\<close>

datatype error =
    NewRequestFailed                \<comment> \<open>the error of \<^verbatim>\<open>http.NewRequestWithContext\<close>, returned as it is\<close>
  | SessNewRequestFailed            \<comment> \<open>failed to create HTTP request for PHPSESSID\<close>
  | SessDoFailed string             \<comment> \<open>failed to perform request to PhotoFunia for PHPSESSID\<close>
  | SessNonOK string                \<comment> \<open>server returned non-OK status for PHPSESSID request\<close>
  | SessCookieNotFound              \<comment> \<open>PHPSESSID cookie not found in response\<close>
  | ReadImageFailed string          \<comment> \<open>failed to read image data\<close>
  | UploadDoFailed string           \<comment> \<open>failed to perform request to PhotoFunia\<close>
  | NonOKStatus string              \<comment> \<open>server returned non-OK status\<close>
  | DecodeFailed                    \<comment> \<open>failed to decode response\<close>
  | EmptyKey                        \<comment> \<open>image key is empty in the response\<close>
  | EffectDoFailed string string    \<comment> \<open>failed to perform request to PhotoFunia ... effect\<close>
  | ResultCreateFailed error        \<comment> \<open>failed to create HTTP request for result page\<close>
  | ResultDoFailed string           \<comment> \<open>failed to get result page\<close>
  | ResultNonOK string              \<comment> \<open>server returned non-OK status for result page\<close>
  | ReadHTMLFailed string           \<comment> \<open>failed to read HTML content\<close>
  | ImageNotFound                   \<comment> \<open>could not find result image in HTML\<close>
  | SrcNotFound                     \<comment> \<open>could not find src attribute in image tag\<close>
  | SrcUnterminated                 \<comment> \<open>could not find end of src attribute\<close>
  | ImageCreateFailed error         \<comment> \<open>failed to create HTTP request for image\<close>
  | ImageDoFailed string            \<comment> \<open>failed to download image\<close>
  | ImageNonOK string               \<comment> \<open>server returned non-OK status for image\<close>
  | SliceBoundsPanic                \<comment> \<open>runtime error: slice bounds out of range\<close>

definition imgTagStart :: bytes where
  \<open>imgTagStart = ''<img id="result-image"''\<close>

definition srcAttrStart :: bytes where
  \<open>srcAttrStart = ''src="''\<close>

definition srcAttrEnd :: bytes where
  \<open>srcAttrEnd = ''"''\<close>

definition extractImageURL :: "bytes \<Rightarrow> error + bytes" where
  "extractImageURL htmlContent =
     (let imgTagIndex = bytes_Index htmlContent imgTagStart in
      if imgTagIndex = - 1 then Inl ImageNotFound
      else (case slice_from htmlContent imgTagIndex of
        None \<Rightarrow> Inl SliceBoundsPanic
      | Some rest \<Rightarrow>
         (let srcStartIndex = bytes_Index rest srcAttrStart in
          if srcStartIndex = - 1 then Inl SrcNotFound
          else
           (let srcStartIndex = srcStartIndex + (imgTagIndex + int (length srcAttrStart)) in
            (case slice_from htmlContent srcStartIndex of
              None \<Rightarrow> Inl SliceBoundsPanic
            | Some rest' \<Rightarrow>
               (let srcEndIndex = bytes_Index rest' srcAttrEnd in
                if srcEndIndex = - 1 then Inl SrcUnterminated
                else
                 (let srcEndIndex = srcEndIndex + srcStartIndex in
                  (case slice htmlContent srcStartIndex srcEndIndex of
                    None \<Rightarrow> Inl SliceBoundsPanic
                  | Some url \<Rightarrow> Inr url))))))))"

text \<open>
  The vocabulary of the claims about the scan: \<open>sep\<close> occurs in \<open>s\<close> at position \<open>i\<close>;
  \<open>i\<close> is the first position at or after \<open>lo\<close> where it occurs.
\<close>

definition occurs_at :: "bytes \<Rightarrow> bytes \<Rightarrow> nat \<Rightarrow> bool" where
  "occurs_at sep s i \<longleftrightarrow> i + length sep \<le> length s \<and> take (length sep) (drop i s) = sep"

definition first_from :: "bytes \<Rightarrow> bytes \<Rightarrow> nat \<Rightarrow> nat \<Rightarrow> bool" where
  "first_from sep s lo i \<longleftrightarrow>
     lo \<le> i \<and> occurs_at sep s i \<and> (\<forall>j \<in> {lo ..< i}. \<not> occurs_at sep s j)"

section \<open>The upload response and its JSON decoding\<close>

text \<open>
  A JSON value as the scanner of \<^verbatim>\<open>encoding/json\<close> delivers it. A number literal is
  \<open>JInt\<close> when it is an integer literal and \<open>JFloat\<close> when it has a fraction or an
  exponent; no field of \<^verbatim>\<open>models.go\<close> accepts the latter, so its value is not kept.
\<close>

datatype json =
    JNull
  | JBool bool
  | JInt int
  | JFloat
  | JString bytes
  | JArray "json list"
  | JObject "(bytes \<times> json) list"

text \<open>The structs of \<^verbatim>\<open>models.go\<close>; a Go \<^verbatim>\<open>int\<close> is taken as 64 bits wide.\<close>

record imageInfo =
  img_URL :: bytes
  img_Width :: int
  img_Height :: int

record imageSet =
  Highres :: imageInfo
  Preview :: imageInfo
  Thumb :: imageInfo

record responseBody =
  Key :: bytes
  Server :: int
  Existed :: bool
  Expiry :: int
  Created :: int
  Lifetime :: int
  Image :: imageSet
  Sid :: bytes

record photoFuniaResponse =
  Response :: responseBody

definition zero_imageInfo :: imageInfo where
  "zero_imageInfo = \<lparr>img_URL = [], img_Width = 0, img_Height = 0\<rparr>"

definition zero_photoFuniaResponse :: photoFuniaResponse where
  "zero_photoFuniaResponse =
     \<lparr>Response = \<lparr>Key = [], Server = 0, Existed = False, Expiry = 0, Created = 0,
        Lifetime = 0,
        Image = \<lparr>Highres = zero_imageInfo, Preview = zero_imageInfo, Thumb = zero_imageInfo\<rparr>,
        Sid = []\<rparr>\<rparr>"

text \<open>
  How \<^verbatim>\<open>encoding/json\<close> stores one JSON value into a Go variable of a given type. The
  variable holds \<open>cur\<close>; the result is its new content, or \<open>None\<close> for an
  \<^verbatim>\<open>UnmarshalTypeError\<close>. JSON \<^verbatim>\<open>null\<close> leaves a string, a number, a bool and a struct
  as they are. (Go goes on decoding after a type error and returns the first one at the
  end; \<^verbatim>\<open>uploadImageWithContext\<close> then drops the struct, so the model stops at the error.)
\<close>

definition store_string :: "json \<Rightarrow> bytes \<Rightarrow> bytes option" where
  "store_string j cur = (case j of JNull \<Rightarrow> Some cur | JString s \<Rightarrow> Some s | _ \<Rightarrow> None)"

definition store_int :: "json \<Rightarrow> int \<Rightarrow> int option" where
  "store_int j cur =
     (case j of
        JNull \<Rightarrow> Some cur
      | JInt n \<Rightarrow> if - (2 ^ 63) \<le> n \<and> n < 2 ^ 63 then Some n else None
      | _ \<Rightarrow> None)"

definition store_bool :: "json \<Rightarrow> bool \<Rightarrow> bool option" where
  "store_bool j cur = (case j of JNull \<Rightarrow> Some cur | JBool b \<Rightarrow> Some b | _ \<Rightarrow> None)"

text \<open>
  A struct is filled member by member, in the order of the JSON object, so that a name
  that comes twice is stored twice. \<open>field k j v\<close> stores member \<open>k\<close> with value \<open>j\<close> into
  the struct value \<open>v\<close>.
\<close>

fun store_members :: "(bytes \<Rightarrow> json \<Rightarrow> 'a \<Rightarrow> 'a option) \<Rightarrow> (bytes \<times> json) list \<Rightarrow> 'a \<Rightarrow> 'a option"
  where
  "store_members field [] v = Some v"
| "store_members field ((k, j) # ms) v =
     (case field k j v of None \<Rightarrow> None | Some v' \<Rightarrow> store_members field ms v')"

definition store_struct :: "(bytes \<Rightarrow> json \<Rightarrow> 'a \<Rightarrow> 'a option) \<Rightarrow> json \<Rightarrow> 'a \<Rightarrow> 'a option" where
  "store_struct field j cur =
     (case j of JNull \<Rightarrow> Some cur | JObject ms \<Rightarrow> store_members field ms cur | _ \<Rightarrow> None)"

text \<open>
  A member name selects the field whose \<^verbatim>\<open>json:"..."\<close> tag it equals, exactly or after
  the case folding of \<^verbatim>\<open>encoding/json\<close>, which is the parameter \<open>foldName\<close>. A name that
  selects no field is skipped with its value.
\<close>

definition name_match :: "(bytes \<Rightarrow> bytes) \<Rightarrow> bytes \<Rightarrow> bytes \<Rightarrow> bool" where
  "name_match foldName k tag \<longleftrightarrow> k = tag \<or> foldName k = foldName tag"

definition imageInfo_field :: "(bytes \<Rightarrow> bytes) \<Rightarrow> bytes \<Rightarrow> json \<Rightarrow> imageInfo \<Rightarrow> imageInfo option"
  where
  "imageInfo_field foldName k j v =
     (if name_match foldName k ''url'' then
        map_option (\<lambda>x. v\<lparr>img_URL := x\<rparr>) (store_string j (img_URL v))
      else if name_match foldName k ''width'' then
        map_option (\<lambda>x. v\<lparr>img_Width := x\<rparr>) (store_int j (img_Width v))
      else if name_match foldName k ''height'' then
        map_option (\<lambda>x. v\<lparr>img_Height := x\<rparr>) (store_int j (img_Height v))
      else Some v)"

definition imageSet_field :: "(bytes \<Rightarrow> bytes) \<Rightarrow> bytes \<Rightarrow> json \<Rightarrow> imageSet \<Rightarrow> imageSet option"
  where
  "imageSet_field foldName k j v =
     (if name_match foldName k ''highres'' then
        map_option (\<lambda>x. v\<lparr>Highres := x\<rparr>) (store_struct (imageInfo_field foldName) j (Highres v))
      else if name_match foldName k ''preview'' then
        map_option (\<lambda>x. v\<lparr>Preview := x\<rparr>) (store_struct (imageInfo_field foldName) j (Preview v))
      else if name_match foldName k ''thumb'' then
        map_option (\<lambda>x. v\<lparr>Thumb := x\<rparr>) (store_struct (imageInfo_field foldName) j (Thumb v))
      else Some v)"

definition responseBody_field ::
  "(bytes \<Rightarrow> bytes) \<Rightarrow> bytes \<Rightarrow> json \<Rightarrow> responseBody \<Rightarrow> responseBody option" where
  "responseBody_field foldName k j v =
     (if name_match foldName k ''key'' then
        map_option (\<lambda>x. v\<lparr>Key := x\<rparr>) (store_string j (Key v))
      else if name_match foldName k ''server'' then
        map_option (\<lambda>x. v\<lparr>Server := x\<rparr>) (store_int j (Server v))
      else if name_match foldName k ''existed'' then
        map_option (\<lambda>x. v\<lparr>Existed := x\<rparr>) (store_bool j (Existed v))
      else if name_match foldName k ''expiry'' then
        map_option (\<lambda>x. v\<lparr>Expiry := x\<rparr>) (store_int j (Expiry v))
      else if name_match foldName k ''created'' then
        map_option (\<lambda>x. v\<lparr>Created := x\<rparr>) (store_int j (Created v))
      else if name_match foldName k ''lifetime'' then
        map_option (\<lambda>x. v\<lparr>Lifetime := x\<rparr>) (store_int j (Lifetime v))
      else if name_match foldName k ''image'' then
        map_option (\<lambda>x. v\<lparr>Image := x\<rparr>) (store_struct (imageSet_field foldName) j (Image v))
      else if name_match foldName k ''sid'' then
        map_option (\<lambda>x. v\<lparr>Sid := x\<rparr>) (store_string j (Sid v))
      else Some v)"

definition photoFuniaResponse_field ::
  "(bytes \<Rightarrow> bytes) \<Rightarrow> bytes \<Rightarrow> json \<Rightarrow> photoFuniaResponse \<Rightarrow> photoFuniaResponse option" where
  "photoFuniaResponse_field foldName k j v =
     (if name_match foldName k ''response'' then
        map_option (\<lambda>x. v\<lparr>Response := x\<rparr>)
          (store_struct (responseBody_field foldName) j (Response v))
      else Some v)"

definition unmarshal :: "(bytes \<Rightarrow> bytes) \<Rightarrow> json \<Rightarrow> photoFuniaResponse option" where
  "unmarshal foldName j = store_struct (photoFuniaResponse_field foldName) j zero_photoFuniaResponse"

text \<open>
  What claim C9 calls a response with a \<^verbatim>\<open>response.key\<close> field: a JSON object with a
  member for \<^verbatim>\<open>response\<close> that is an object with a member for \<^verbatim>\<open>key\<close>.
\<close>

definition has_response_key :: "(bytes \<Rightarrow> bytes) \<Rightarrow> json \<Rightarrow> bool" where
  "has_response_key foldName j =
     (case j of
        JObject ms \<Rightarrow>
          list_ex (\<lambda>(k, v). name_match foldName k ''response'' \<and>
             (case v of
                JObject ms' \<Rightarrow> list_ex (\<lambda>(k', v'). name_match foldName k' ''key'') ms'
              | _ \<Rightarrow> False)) ms
      | _ \<Rightarrow> False)"

section \<open>Requests, responses and the client\<close>

text \<open>
  An \<^verbatim>\<open>io.Reader\<close> as \<^verbatim>\<open>io.ReadAll\<close> sees it: the bytes it delivers and the error, if
  any, that ends the reading.
\<close>

record reader =
  data :: bytes
  read_err :: "string option"

definition io_ReadAll :: "reader \<Rightarrow> string + bytes" where
  "io_ReadAll r = (case read_err r of Some e \<Rightarrow> Inl e | None \<Rightarrow> Inr (data r))"

text \<open>
  A multipart body is kept as what \<^verbatim>\<open>mime/multipart\<close> was asked to write: the boundary
  and the parts, in order. \<open>FormField\<close> is a part written by \<^verbatim>\<open>WriteField\<close>, \<open>FormFile\<close>
  one written by \<^verbatim>\<open>CreateFormFile\<close> and \<^verbatim>\<open>Write\<close>. The writer writes into a
  \<^verbatim>\<open>bytes.Buffer\<close>, which never returns an error, so the error branches after
  \<^verbatim>\<open>CreateFormFile\<close>, \<^verbatim>\<open>Write\<close>, \<^verbatim>\<open>WriteField\<close> and \<^verbatim>\<open>Close\<close> are never taken.
\<close>

datatype part =
    FormField string string
  | FormFile string string bytes

datatype body = NoBody | Multipart string "part list"

record request =
  Method :: string
  URL :: string
  Header :: "(string \<times> string) list"
  Body :: body

record response =
  StatusCode :: int
  Status :: string
  Cookies :: "(string \<times> string) list"
  RespBody :: reader
  RequestURL :: string

text \<open>
  \<open>Cookies\<close> is \<^verbatim>\<open>resp.Cookies()\<close>, name and value of each \<^verbatim>\<open>Set-Cookie\<close> header in
  order; \<open>RequestURL\<close> is \<^verbatim>\<open>resp.Request.URL.String()\<close>, the URL after redirects.

  The client's calls are recorded in a trace: every \<^verbatim>\<open>c.client.Do\<close> with the step of
  the pipeline that issues it, its request and its outcome, and the \<^verbatim>\<open>io.ReadAll\<close> and
  the \<^verbatim>\<open>Close\<close> of the input image stream.
\<close>

datatype step = Bootstrap | Upload | Effect | ResultPage | ImageDownload

datatype event =
    ReadAllImage
  | CloseImage
  | Exchange (step_of: step) (request_of: request) (outcome_of: "string + response")

text \<open>
  Of the fields of \<^verbatim>\<open>PhotoFuniaClient\<close> only \<^verbatim>\<open>PHPSESSID\<close> changes; \<open>trace\<close> is the
  record of what the client has done so far. The logger is a capability of the caller
  and is left out, as is the timeout, which lives in the HTTP client.
\<close>

record PhotoFuniaClient =
  PHPSESSID :: string
  trace :: "event list"

text \<open>
  What the code calls and the repository does not define, for one call with its context:
  \<^item> \<open>transport\<close>: the outcome of \<^verbatim>\<open>c.client.Do(req)\<close>, an error text or the response,
    which may depend on everything that happened before;
  \<^item> \<open>NewRequest_ok\<close>: whether \<^verbatim>\<open>http.NewRequestWithContext(ctx, method, url, body)\<close>
    succeeds (it fails for a nil context and for a URL that does not parse);
  \<^item> \<open>json_scan\<close>: the first JSON value that a \<^verbatim>\<open>json.Decoder\<close> reads from a stream,
    \<open>None\<close> when the stream ends, fails or is not JSON;
  \<^item> \<open>foldName\<close>: the case folding by which \<^verbatim>\<open>encoding/json\<close> compares member names;
  \<^item> \<open>map_range\<close>: the order in which \<^verbatim>\<open>range\<close> visits the entries of a map.
\<close>

record env =
  transport :: "event list \<Rightarrow> request \<Rightarrow> string + response"
  NewRequest_ok :: "string \<Rightarrow> string \<Rightarrow> bool"
  json_scan :: "reader \<Rightarrow> json option"
  foldName :: "bytes \<Rightarrow> bytes"
  map_range :: "(string \<times> string) list \<Rightarrow> (string \<times> string) list"

definition baseURL :: string where
  "baseURL = ''https://photofunia.com''"

definition defaultBoundary :: string where
  "defaultBoundary = ''----WebKitFormBoundaryL3VFyS6LkNI3s7UM''"

definition userAgent :: string where
  "userAgent = ''Mozilla/5.0 (Windows NT 10.0; Win64; x64) AppleWebKit/537.36 (KHTML, like Gecko) Chrome/138.0.0.0 Safari/537.36''"

definition uploadBoundary :: string where
  "uploadBoundary = ''----WebKitFormBoundaryx4CBHpJEw9pPEXE4''"

text \<open>A Go \<^verbatim>\<open>map[string]string\<close> is a list of entries with distinct keys; \<^verbatim>\<open>m[k] = v\<close>:\<close>

fun map_set :: "string \<Rightarrow> string \<Rightarrow> (string \<times> string) list \<Rightarrow> (string \<times> string) list" where
  "map_set k v [] = [(k, v)]"
| "map_set k v ((k', v') # m) = (if k' = k then (k, v) # m else (k', v') # map_set k v m)"

definition Header_Set :: "string \<Rightarrow> string \<Rightarrow> request \<Rightarrow> request" where
  "Header_Set k v req = req\<lparr>Header := map_set k v (Header req)\<rparr>"

definition Header_Get :: "request \<Rightarrow> string \<Rightarrow> string option" where
  "Header_Get req k = map_of (Header req) k"

definition http_NewRequestWithContext :: "env \<Rightarrow> string \<Rightarrow> string \<Rightarrow> body \<Rightarrow> request option" where
  "http_NewRequestWithContext E method url b =
     (if NewRequest_ok E method url
      then Some \<lparr>Method = method, URL = url, Header = [], Body = b\<rparr>
      else None)"

definition client_Do ::
  "env \<Rightarrow> step \<Rightarrow> request \<Rightarrow> PhotoFuniaClient \<Rightarrow> (string + response) \<times> PhotoFuniaClient" where
  "client_Do E st req c =
     (let r = transport E (trace c) req
      in (r, c\<lparr>trace := trace c @ [Exchange st req r]\<rparr>))"

text \<open>
  The six headers that \<^verbatim>\<open>generateSessIDWithContext\<close> and \<^verbatim>\<open>createRequestWithContext\<close>
  both set, in the order of the code.
\<close>

definition browser_headers :: "request \<Rightarrow> request" where
  "browser_headers req =
     Header_Set ''User-Agent'' userAgent
      (Header_Set ''Origin'' baseURL
       (Header_Set ''Connection'' ''keep-alive''
        (Header_Set ''Cache-Control'' ''max-age=0''
         (Header_Set ''Accept-Language'' ''en-US,en;q=0.9''
          (Header_Set ''Accept''
             ''text/html,application/xhtml+xml,application/xml;q=0.9,image/avif,image/webp,image/apng,*/*;q=0.8,application/signed-exchange;v=b3;q=0.7''
             req)))))"

definition generateSessIDWithContext ::
  "env \<Rightarrow> PhotoFuniaClient \<Rightarrow> (error + unit) \<times> PhotoFuniaClient" where
  "generateSessIDWithContext E c =
     (case http_NewRequestWithContext E ''GET'' (baseURL @ ''/cookie-warning'') NoBody of
        None \<Rightarrow> (Inl SessNewRequestFailed, c)
      | Some req \<Rightarrow>
         (let req = Header_Set ''Cookie'' ''accept_cookie=true'' (browser_headers req) in
          (case client_Do E Bootstrap req c of
             (Inl err, c1) \<Rightarrow> (Inl (SessDoFailed err), c1)
           | (Inr resp, c1) \<Rightarrow>
               if StatusCode resp \<noteq> 200 then (Inl (SessNonOK (Status resp)), c1)
               else (case find (\<lambda>cookie. fst cookie = ''PHPSESSID'') (Cookies resp) of
                       Some cookie \<Rightarrow> (Inr (), c1\<lparr>PHPSESSID := snd cookie\<rparr>)
                     | None \<Rightarrow> (Inl SessCookieNotFound, c1)))))"

definition session_cookie :: "string \<Rightarrow> string" where
  "session_cookie sid = ''accept_cookie=true; PHPSESSID='' @ sid"

definition createRequestWithContext ::
  "env \<Rightarrow> string \<Rightarrow> string \<Rightarrow> body \<Rightarrow> PhotoFuniaClient \<Rightarrow> (error + request) \<times> PhotoFuniaClient"
  where
  "createRequestWithContext E method url b c =
     (case http_NewRequestWithContext E method url b of
        None \<Rightarrow> (Inl NewRequestFailed, c)
      | Some req \<Rightarrow>
         (let req = browser_headers req in
          (case (if PHPSESSID c = [] then generateSessIDWithContext E c else (Inr (), c)) of
             (Inl err, c1) \<Rightarrow> (Inl err, c1)
           | (Inr _, c1) \<Rightarrow>
               (Inr (Header_Set ''Cookie'' (session_cookie (PHPSESSID c1)) req), c1))))"

text \<open>
  \<^verbatim>\<open>json.NewDecoder(resp.Body).Decode(&photoFuniaResp)\<close>: scan one value, store it into
  the zero struct.
\<close>

definition json_Decode :: "env \<Rightarrow> reader \<Rightarrow> photoFuniaResponse option" where
  "json_Decode E r =
     (case json_scan E r of None \<Rightarrow> None | Some j \<Rightarrow> unmarshal (foldName E) j)"

text \<open>
  \<^verbatim>\<open>uploadImageWithContext\<close> opens with \<^verbatim>\<open>defer imageReader.Close()\<close>: the stream is
  closed when the function returns, whatever it returns. \<open>uploadImage_body\<close> is the
  function from its first statement to its \<^verbatim>\<open>return\<close>.
\<close>

definition uploadImage_body ::
  "env \<Rightarrow> reader \<Rightarrow> PhotoFuniaClient \<Rightarrow> (error + photoFuniaResponse) \<times> PhotoFuniaClient" where
  "uploadImage_body E imageReader c =
     (let c0 = c\<lparr>trace := trace c @ [ReadAllImage]\<rparr> in
      (case io_ReadAll imageReader of
         Inl err \<Rightarrow> (Inl (ReadImageFailed err), c0)
       | Inr imageData \<Rightarrow>
          (let requestBody = Multipart uploadBoundary [FormFile ''image'' ''image.png'' imageData] in
           (case createRequestWithContext E ''POST'' (baseURL @ ''/images?server=1'') requestBody c0 of
              (Inl err, c1) \<Rightarrow> (Inl err, c1)
            | (Inr req, c1) \<Rightarrow>
               (let req =
                  Header_Set ''Referer'' (baseURL @ ''/categories/all_effects/clown'')
                   (Header_Set ''Content-Type'' (''multipart/form-data; boundary='' @ uploadBoundary)
                    (Header_Set ''Accept'' ''application/json, text/javascript, */*; q=0.01'' req))
                in
                (case client_Do E Upload req c1 of
                   (Inl err, c2) \<Rightarrow> (Inl (UploadDoFailed err), c2)
                 | (Inr resp, c2) \<Rightarrow>
                     if StatusCode resp \<noteq> 200 then (Inl (NonOKStatus (Status resp)), c2)
                     else (case json_Decode E (RespBody resp) of
                             None \<Rightarrow> (Inl DecodeFailed, c2)
                           | Some photoFuniaResp \<Rightarrow> (Inr photoFuniaResp, c2))))))))"

definition uploadImageWithContext ::
  "env \<Rightarrow> reader \<Rightarrow> PhotoFuniaClient \<Rightarrow> (error + photoFuniaResponse) \<times> PhotoFuniaClient" where
  "uploadImageWithContext E imageReader c =
     (case uploadImage_body E imageReader c of
        (r, c1) \<Rightarrow> (r, c1\<lparr>trace := trace c1 @ [CloseImage]\<rparr>))"

definition getResultImageWithContext ::
  "env \<Rightarrow> string \<Rightarrow> PhotoFuniaClient \<Rightarrow> (error + bytes) \<times> PhotoFuniaClient" where
  "getResultImageWithContext E resultURL c =
     (case createRequestWithContext E ''GET'' resultURL NoBody c of
        (Inl err, c1) \<Rightarrow> (Inl (ResultCreateFailed err), c1)
      | (Inr req, c1) \<Rightarrow>
         (case client_Do E ResultPage req c1 of
            (Inl err, c2) \<Rightarrow> (Inl (ResultDoFailed err), c2)
          | (Inr resp, c2) \<Rightarrow>
              if StatusCode resp \<noteq> 200 then (Inl (ResultNonOK (Status resp)), c2)
              else (case io_ReadAll (RespBody resp) of
                Inl err \<Rightarrow> (Inl (ReadHTMLFailed err), c2)
              | Inr htmlContent \<Rightarrow>
                 (case extractImageURL htmlContent of
                    Inl err \<Rightarrow> (Inl err, c2)
                  | Inr imageURL \<Rightarrow>
                     (case createRequestWithContext E ''GET'' imageURL NoBody c2 of
                        (Inl err, c3) \<Rightarrow> (Inl (ImageCreateFailed err), c3)
                      | (Inr imgReq, c3) \<Rightarrow>
                         (let imgReq =
                            Header_Set ''Referer'' resultURL
                             (Header_Set ''Accept''
                                ''image/avif,image/webp,image/apng,image/svg+xml,image/*,*/*;q=0.8''
                                imgReq)
                          in
                          (case client_Do E ImageDownload imgReq c3 of
                             (Inl err, c4) \<Rightarrow> (Inl (ImageDoFailed err), c4)
                           | (Inr imgResp, c4) \<Rightarrow>
                               if StatusCode imgResp \<noteq> 200
                               then (Inl (ImageNonOK (Status imgResp)), c4)
                               else (case io_ReadAll (RespBody imgResp) of
                                       Inl err \<Rightarrow> (Inl (ReadImageFailed err), c4)
                                     | Inr imageData \<Rightarrow> (Inr imageData, c4)))))))))"

definition applyEffectWithContext ::
  "env \<Rightarrow> reader \<Rightarrow> string \<Rightarrow> (string \<times> string) list \<Rightarrow> string \<Rightarrow> PhotoFuniaClient
     \<Rightarrow> (error + bytes) \<times> PhotoFuniaClient" where
  "applyEffectWithContext E img effectPath params effectName c =
     (case uploadImageWithContext E img c of
        (Inl err, c1) \<Rightarrow> (Inl err, c1)
      | (Inr response, c1) \<Rightarrow>
         (let imageKey = Key (Response response) in
          if imageKey = [] then (Inl EmptyKey, c1)
          else
           (let params = map_set ''image'' imageKey params;
                requestBody =
                  Multipart defaultBoundary
                    (map (\<lambda>(key, value). FormField key value) (map_range E params))
            in
            (let url = baseURL @ ''/categories/'' @ effectPath @ ''?server=1'' in
            (case createRequestWithContext E ''POST'' url requestBody c1 of
               (Inl err, c2) \<Rightarrow> (Inl err, c2)
             | (Inr req, c2) \<Rightarrow>
                (let req =
                   Header_Set ''Referer'' (baseURL @ ''/categories/'' @ effectPath)
                    (Header_Set ''Content-Type''
                       (''multipart/form-data; boundary='' @ defaultBoundary) req)
                 in
                 (case client_Do E Effect req c2 of
                    (Inl err, c3) \<Rightarrow> (Inl (EffectDoFailed effectName err), c3)
                  | (Inr resp, c3) \<Rightarrow>
                      if StatusCode resp \<noteq> 200 then (Inl (NonOKStatus (Status resp)), c3)
                      else getResultImageWithContext E (RequestURL resp) c3)))))))"

definition FatifyWithContext ::
  "env \<Rightarrow> reader \<Rightarrow> PhotoFuniaClient \<Rightarrow> (error + bytes) \<times> PhotoFuniaClient" where
  "FatifyWithContext E img c =
     (let params =
        map_set ''size'' ''XXXXXL''
         (map_set ''image:crop'' ''0.0.961.1093''
          (map_set ''current-category'' ''faces'' []))
      in applyEffectWithContext E img ''faces/fat_maker'' params ''fatify'' c)"

definition ClownifyWithContext ::
  "env \<Rightarrow> reader \<Rightarrow> bool \<Rightarrow> PhotoFuniaClient \<Rightarrow> (error + bytes) \<times> PhotoFuniaClient" where
  "ClownifyWithContext E img includeHat c =
     (let params =
        map_set ''image:crop'' ''0.0.961.1093''
         (map_set ''current-category'' ''all_effects'' []);
          params = (if includeHat then map_set ''hat'' ''on'' params
                    else map_set ''hat'' ''off'' params)
      in applyEffectWithContext E img ''all_effects/clown'' params ''clownify'' c)"

section \<open>The vocabulary of the claims about the pipeline\<close>

text \<open>The events that one call adds to the trace, and the HTTP exchanges among them.\<close>

definition new_events :: "PhotoFuniaClient \<Rightarrow> PhotoFuniaClient \<Rightarrow> event list" where
  "new_events c c' = drop (length (trace c)) (trace c')"

fun is_exchange :: "event \<Rightarrow> bool" where
  "is_exchange (Exchange st req res) = True"
| "is_exchange ReadAllImage = False"
| "is_exchange CloseImage = False"

fun is_step :: "step \<Rightarrow> event \<Rightarrow> bool" where
  "is_step st (Exchange st' req res) = (st' = st)"
| "is_step st ReadAllImage = False"
| "is_step st CloseImage = False"

fun is_close :: "event \<Rightarrow> bool" where
  "is_close CloseImage = True"
| "is_close ReadAllImage = False"
| "is_close (Exchange st req res) = False"

definition exchanges :: "event list \<Rightarrow> event list" where
  "exchanges evs = filter is_exchange evs"

text \<open>
  An exchange carries the session token \<open>tok\<close>: it is not a session bootstrap, and the
  \<^verbatim>\<open>Cookie\<close> header of its request is \<^verbatim>\<open>accept_cookie=true; PHPSESSID=tok\<close>.
\<close>

fun carries :: "string \<Rightarrow> event \<Rightarrow> bool" where
  "carries tok (Exchange st req res) =
     (st \<noteq> Bootstrap \<and> Header_Get req ''Cookie'' = Some (session_cookie tok))"
| "carries tok ReadAllImage = False"
| "carries tok CloseImage = False"

text \<open>
  The token that a session-bootstrap outcome offers: the value of the first cookie named
  \<^verbatim>\<open>PHPSESSID\<close> of a response with status 200. Without one, the session error of the
  outcome.
\<close>

fun bootstrap_token :: "string + response \<Rightarrow> string option" where
  "bootstrap_token (Inl err) = None"
| "bootstrap_token (Inr resp) =
     (if StatusCode resp = 200 then map_of (Cookies resp) ''PHPSESSID'' else None)"

text \<open>
  A session bootstrap fails when the call errors, when the status is not 200, and when no
  cookie of the response is named \<^verbatim>\<open>PHPSESSID\<close>.
\<close>

fun bootstrap_failed :: "string + response \<Rightarrow> bool" where
  "bootstrap_failed (Inl err) = True"
| "bootstrap_failed (Inr resp) =
     (StatusCode resp \<noteq> 200 \<or> ''PHPSESSID'' \<notin> fst ` set (Cookies resp))"

fun sess_error :: "string + response \<Rightarrow> error" where
  "sess_error (Inl err) = SessDoFailed err"
| "sess_error (Inr resp) =
     (if StatusCode resp \<noteq> 200 then SessNonOK (Status resp) else SessCookieNotFound)"

text \<open>The non-OK-status error of each step, and the error inside the wrapping errors.\<close>

fun status_error :: "step \<Rightarrow> string \<Rightarrow> error" where
  "status_error Bootstrap s = SessNonOK s"
| "status_error Upload s = NonOKStatus s"
| "status_error Effect s = NonOKStatus s"
| "status_error ResultPage s = ResultNonOK s"
| "status_error ImageDownload s = ImageNonOK s"

fun root_cause :: "error \<Rightarrow> error" where
  "root_cause (ResultCreateFailed e) = root_cause e"
| "root_cause (ImageCreateFailed e) = root_cause e"
| "root_cause e = e"

section \<open>Auxiliary notions for the proofs\<close>

text \<open>
  The session discipline as an automaton over the events: with the token \<open>tok\<close> held
  (empty for none), a bootstrap happens only without a token and stores the token its
  outcome offers; every other exchange carries the token held at that moment.
\<close>

fun tok_after :: "string \<Rightarrow> event list \<Rightarrow> string" where
  "tok_after tok [] = tok"
| "tok_after tok (Exchange st req res # evs) =
     (if st = Bootstrap
      then tok_after (case bootstrap_token res of Some v \<Rightarrow> v | None \<Rightarrow> tok) evs
      else tok_after tok evs)"
| "tok_after tok (ReadAllImage # evs) = tok_after tok evs"
| "tok_after tok (CloseImage # evs) = tok_after tok evs"

fun cookies_ok :: "string \<Rightarrow> event list \<Rightarrow> bool" where
  "cookies_ok tok [] = True"
| "cookies_ok tok (Exchange st req res # evs) =
     (if st = Bootstrap
      then tok = [] \<and> cookies_ok (case bootstrap_token res of Some v \<Rightarrow> v | None \<Rightarrow> tok) evs
      else Header_Get req ''Cookie'' = Some (session_cookie tok) \<and> cookies_ok tok evs)"
| "cookies_ok tok (ReadAllImage # evs) = cookies_ok tok evs"
| "cookies_ok tok (CloseImage # evs) = cookies_ok tok evs"

text \<open>
  An exchange is clean when the pipeline goes on after it: a bootstrap that offers a
  token, any other exchange with status 200. After an exchange that is not clean the
  call fails, and \<open>failure_of\<close> says with which error. A status failure is a result
  whose error, inside the wrapping errors, is one of the non-OK-status errors.
\<close>

fun clean_ev :: "event \<Rightarrow> bool" where
  "clean_ev (Exchange st req res) =
     (if st = Bootstrap then bootstrap_token res \<noteq> None
      else (case res of Inl err \<Rightarrow> False | Inr resp \<Rightarrow> StatusCode resp = 200))"
| "clean_ev ReadAllImage = True"
| "clean_ev CloseImage = True"

fun is_status_error :: "error \<Rightarrow> bool" where
  "is_status_error (SessNonOK s) = True"
| "is_status_error (NonOKStatus s) = True"
| "is_status_error (ResultNonOK s) = True"
| "is_status_error (ImageNonOK s) = True"
| "is_status_error e = False"

fun status_failure :: "error + 'a \<Rightarrow> bool" where
  "status_failure (Inl e) = is_status_error (root_cause e)"
| "status_failure (Inr x) = False"

fun failure_of :: "event \<Rightarrow> error + 'a \<Rightarrow> bool" where
  "failure_of (Exchange st req res) r =
     (if st = Bootstrap then (\<exists>e. r = Inl e \<and> root_cause e = sess_error res)
      else (case res of
              Inl err \<Rightarrow> (\<exists>e. r = Inl e \<and> \<not> is_status_error (root_cause e))
            | Inr resp \<Rightarrow> (\<exists>e. r = Inl e \<and> root_cause e = status_error st (Status resp))))"
| "failure_of ReadAllImage r = False"
| "failure_of CloseImage r = False"

definition run_shape :: "error + 'a \<Rightarrow> event list \<Rightarrow> bool" where
  "run_shape r evs \<longleftrightarrow>
     (list_all clean_ev evs \<and> \<not> status_failure r) \<or>
     (\<exists>pre x. exchanges evs = pre @ [x] \<and> list_all clean_ev pre \<and> \<not> clean_ev x \<and> failure_of x r)"

definition only_steps :: "step set \<Rightarrow> event list \<Rightarrow> bool" where
  "only_steps S evs \<longleftrightarrow> (\<forall>e\<in>set evs. \<exists>st\<in>S. is_step st e)"

definition stage :: "step set \<Rightarrow> PhotoFuniaClient \<Rightarrow> error + 'a \<Rightarrow> PhotoFuniaClient \<Rightarrow> bool" where
  "stage S c r c' \<longleftrightarrow>
     (\<exists>evs. trace c' = trace c @ evs \<and> only_steps S evs \<and>
        cookies_ok (PHPSESSID c) evs \<and> PHPSESSID c' = tok_after (PHPSESSID c) evs \<and>
        run_shape r evs)"

text \<open>
  The body of the effect-invocation request: the parameters of the effect with the image
  key merged in, one form field for each entry, in the order of \<^verbatim>\<open>range\<close>.
\<close>

definition effect_body :: "env \<Rightarrow> (string \<times> string) list \<Rightarrow> string \<Rightarrow> body" where
  "effect_body E params imageKey =
     Multipart defaultBoundary
       (map (\<lambda>(key, value). FormField key value) (map_range E (map_set ''image'' imageKey params)))"

text \<open>What the upload step returns for the outcome of its POST.\<close>

definition upload_outcome :: "env \<Rightarrow> string + response \<Rightarrow> error + photoFuniaResponse" where
  "upload_outcome E ures =
     (case ures of
        Inl err \<Rightarrow> Inl (UploadDoFailed err)
      | Inr resp \<Rightarrow>
          if StatusCode resp \<noteq> 200 then Inl (NonOKStatus (Status resp))
          else (case json_Decode E (RespBody resp) of
                  None \<Rightarrow> Inl DecodeFailed
                | Some photoFuniaResp \<Rightarrow> Inr photoFuniaResp))"

section \<open>A test server\<close>

text \<open>
  The mock transport of \<^verbatim>\<open>photofunia_test.go\<close>, with three knobs: the cookies of the
  session bootstrap, and the status code and the body of the upload response. The effect
  request is redirected to a result page that shows \<^verbatim>\<open>https://x/y.jpg\<close>, whose bytes
  are \<^verbatim>\<open>DEADBEEF\<close>.
\<close>

definition demo_response :: "int \<Rightarrow> (string \<times> string) list \<Rightarrow> bytes \<Rightarrow> string \<Rightarrow> response" where
  "demo_response code cookies b url =
     \<lparr>StatusCode = code, Status = (if code = 200 then ''200 OK'' else ''Error''),
      Cookies = cookies, RespBody = \<lparr>data = b, read_err = None\<rparr>, RequestURL = url\<rparr>"

definition demo_transport ::
  "(string \<times> string) list \<Rightarrow> int \<Rightarrow> bytes \<Rightarrow> event list \<Rightarrow> request \<Rightarrow> string + response" where
  \<open>demo_transport cookies code upload_body tr req =
     (if URL req = ''https://photofunia.com/cookie-warning'' then
        Inr (demo_response 200 cookies [] (URL req))
      else if URL req = ''https://photofunia.com/images?server=1'' then
        Inr (demo_response code [] upload_body (URL req))
      else if Method req = ''POST'' then
        Inr (demo_response 200 [] [] ''https://photofunia.com/results/result123'')
      else if URL req = ''https://photofunia.com/results/result123'' then
        Inr (demo_response 200 [] ''<img id="result-image" src="https://x/y.jpg">'' (URL req))
      else if URL req = ''https://x/y.jpg'' then
        Inr (demo_response 200 [] ''DEADBEEF'' (URL req))
      else Inl ''unexpected request'')\<close>

text \<open>The JSON documents that the test server sends, as the scanner reads them.\<close>

definition demo_scan :: "reader \<Rightarrow> json option" where
  \<open>demo_scan r =
     (if read_err r \<noteq> None then None
      else if data r = ''{"response":{"key":"abc123"}}'' then
        Some (JObject [(''response'', JObject [(''key'', JString ''abc123'')])])
      else if data r = ''{"response":{"key":""}}'' then
        Some (JObject [(''response'', JObject [(''key'', JString '''')])])
      else if data r = ''{"response":{"server":1}}'' then
        Some (JObject [(''response'', JObject [(''server'', JInt 1)])])
      else if data r = ''{"response":{"server":"1"}}'' then
        Some (JObject [(''response'', JObject [(''server'', JString ''1'')])])
      else None)\<close>

definition demo_env :: "(string \<times> string) list \<Rightarrow> int \<Rightarrow> bytes \<Rightarrow> env" where
  "demo_env cookies code upload_body =
     \<lparr>transport = demo_transport cookies code upload_body,
      NewRequest_ok = (\<lambda>method url. True),
      json_scan = demo_scan,
      foldName = (\<lambda>name. name),
      map_range = (\<lambda>m. m)\<rparr>"

definition demo_image :: reader where
  "demo_image = \<lparr>data = ''fake-image-data'', read_err = None\<rparr>"

definition new_client :: PhotoFuniaClient where
  "new_client = \<lparr>PHPSESSID = [], trace = []\<rparr>"

text \<open>Calls on a new client against the test server.\<close>

definition demo_fatify ::
  "(string \<times> string) list \<Rightarrow> int \<Rightarrow> bytes \<Rightarrow> (error + bytes) \<times> PhotoFuniaClient" where
  "demo_fatify cookies code upload_body =
     FatifyWithContext (demo_env cookies code upload_body) demo_image new_client"

definition demo_clownify :: "bool \<Rightarrow> (error + bytes) \<times> PhotoFuniaClient" where
  \<open>demo_clownify includeHat =
     ClownifyWithContext
       (demo_env [(''PHPSESSID'', ''test-session-id'')] 200 ''{"response":{"key":"abc123"}}'')
       demo_image includeHat new_client\<close>

text \<open>A second call, on the client that the first call leaves behind.\<close>

definition demo_second_call :: "bool \<Rightarrow> (error + bytes) \<times> PhotoFuniaClient" where
  \<open>demo_second_call includeHat =
     FatifyWithContext
       (demo_env [(''PHPSESSID'', ''test-session-id'')] 200 ''{"response":{"key":"abc123"}}'')
       demo_image (snd (demo_clownify includeHat))\<close>

text \<open>
  A server whose session does not last: the first session bootstrap that it answers sets
  the cookie \<^verbatim>\<open>PHPSESSID\<close> with an empty value, every later one sets no cookie. All other
  requests are answered as by the test server, the upload with the key \<^verbatim>\<open>abc123\<close>.
\<close>

definition lapsing_transport :: "event list \<Rightarrow> request \<Rightarrow> string + response" where
  \<open>lapsing_transport tr req =
     (if filter (is_step Bootstrap) tr = []
      then demo_transport [(''PHPSESSID'', [])] 200 ''{"response":{"key":"abc123"}}'' tr req
      else demo_transport [] 200 ''{"response":{"key":"abc123"}}'' tr req)\<close>

definition lapsing_env :: env where
  "lapsing_env =
     \<lparr>transport = lapsing_transport,
      NewRequest_ok = (\<lambda>method url. True),
      json_scan = demo_scan,
      foldName = (\<lambda>name. name),
      map_range = (\<lambda>m. m)\<rparr>"

definition lapsing_fatify :: "(error + bytes) \<times> PhotoFuniaClient" where
  "lapsing_fatify = FatifyWithContext lapsing_env demo_image new_client"

section \<open>Properties of the result-page scan\<close>

lemma occurs_at_Cons_0: "occurs_at sep (c # s) 0 \<longleftrightarrow> take (length sep) (c # s) = sep"
proof -
  have "length sep \<le> length (c # s)" if "take (length sep) (c # s) = sep"
  proof -
    from that have "length (take (length sep) (c # s)) = length sep" by simp
    then show ?thesis by simp
  qed
  then show ?thesis unfolding occurs_at_def by auto
qed

lemma occurs_at_Cons_Suc: "occurs_at sep (c # s) (Suc i) \<longleftrightarrow> occurs_at sep s i"
  unfolding occurs_at_def by simp

lemma occurs_at_Nil: "occurs_at sep [] i \<longleftrightarrow> sep = [] \<and> i = 0"
  unfolding occurs_at_def by auto

lemma bytes_Index_ge: "- 1 \<le> bytes_Index s sep"
  by (induction s) (auto simp: Let_def)

lemma bytes_Index_absent: "bytes_Index s sep = - 1 \<longleftrightarrow> (\<forall>i. \<not> occurs_at sep s i)"
proof (induction s)
  case Nil
  then show ?case by (simp add: occurs_at_Nil)
next
  case (Cons c s)
  show ?case
  proof (cases "take (length sep) (c # s) = sep")
    case True
    then have "occurs_at sep (c # s) 0" by (simp add: occurs_at_Cons_0)
    with True show ?thesis by auto
  next
    case False
    have ge: "- 1 \<le> bytes_Index s sep" by (rule bytes_Index_ge)
    have "(\<forall>i. \<not> occurs_at sep (c # s) i) \<longleftrightarrow> (\<forall>i. \<not> occurs_at sep s i)"
    proof
      assume a: "\<forall>i. \<not> occurs_at sep (c # s) i"
      show "\<forall>i. \<not> occurs_at sep s i"
      proof
        fix i from a have "\<not> occurs_at sep (c # s) (Suc i)" by blast
        then show "\<not> occurs_at sep s i" by (simp add: occurs_at_Cons_Suc)
      qed
    next
      assume a: "\<forall>i. \<not> occurs_at sep s i"
      show "\<forall>i. \<not> occurs_at sep (c # s) i"
      proof
        fix i show "\<not> occurs_at sep (c # s) i"
          using a False by (cases i) (simp_all add: occurs_at_Cons_0 occurs_at_Cons_Suc)
      qed
    qed
    with False Cons ge show ?thesis by (auto simp: Let_def)
  qed
qed

lemma bytes_Index_first:
  "bytes_Index s sep = int i \<longleftrightarrow> first_from sep s 0 i"
proof (induction s arbitrary: i)
  case Nil
  show ?case by (cases "sep = []") (auto simp: first_from_def occurs_at_Nil)
next
  case (Cons c s)
  show ?case
  proof (cases "take (length sep) (c # s) = sep")
    case True
    then have o: "occurs_at sep (c # s) 0" by (simp add: occurs_at_Cons_0)
    have "first_from sep (c # s) 0 i \<longleftrightarrow> i = 0"
      using o by (auto simp: first_from_def)
    with True show ?thesis by auto
  next
    case False
    then have no: "\<not> occurs_at sep (c # s) 0" by (simp add: occurs_at_Cons_0)
    have ge: "- 1 \<le> bytes_Index s sep" by (rule bytes_Index_ge)
    show ?thesis
    proof (cases i)
      case 0
      with False no ge show ?thesis by (auto simp: Let_def first_from_def)
    next
      case (Suc k)
      have "first_from sep (c # s) 0 (Suc k) \<longleftrightarrow> first_from sep s 0 k"
      proof -
        have "(\<forall>j\<in>{0..<Suc k}. \<not> occurs_at sep (c # s) j) \<longleftrightarrow> (\<forall>j\<in>{0..<k}. \<not> occurs_at sep s j)"
        proof
          assume a: "\<forall>j\<in>{0..<Suc k}. \<not> occurs_at sep (c # s) j"
          show "\<forall>j\<in>{0..<k}. \<not> occurs_at sep s j"
          proof
            fix j assume "j \<in> {0..<k}"
            then have "Suc j \<in> {0..<Suc k}" by simp
            with a have "\<not> occurs_at sep (c # s) (Suc j)" by blast
            then show "\<not> occurs_at sep s j" by (simp add: occurs_at_Cons_Suc)
          qed
        next
          assume a: "\<forall>j\<in>{0..<k}. \<not> occurs_at sep s j"
          show "\<forall>j\<in>{0..<Suc k}. \<not> occurs_at sep (c # s) j"
          proof
            fix j assume j: "j \<in> {0..<Suc k}"
            show "\<not> occurs_at sep (c # s) j"
              using a no j by (cases j) (simp_all add: occurs_at_Cons_Suc)
          qed
        qed
        then show ?thesis by (simp add: first_from_def occurs_at_Cons_Suc)
      qed
      moreover have "bytes_Index (c # s) sep = int (Suc k) \<longleftrightarrow> bytes_Index s sep = int k"
        using False ge by (auto simp: Let_def)
      ultimately show ?thesis using Cons.IH[of k] Suc by simp
    qed
  qed
qed

lemma occurs_at_drop:
  "lo \<le> length s \<Longrightarrow> occurs_at sep (drop lo s) i \<longleftrightarrow> occurs_at sep s (lo + i)"
  unfolding occurs_at_def by (auto simp: add.commute)

lemma first_from_drop:
  assumes "lo \<le> length s"
  shows "first_from sep (drop lo s) 0 i \<longleftrightarrow> first_from sep s lo (lo + i)"
proof -
  have "(\<forall>j\<in>{0..<i}. \<not> occurs_at sep (drop lo s) j) \<longleftrightarrow> (\<forall>j\<in>{lo..<lo + i}. \<not> occurs_at sep s j)"
  proof
    assume a: "\<forall>j\<in>{0..<i}. \<not> occurs_at sep (drop lo s) j"
    show "\<forall>j\<in>{lo..<lo + i}. \<not> occurs_at sep s j"
    proof
      fix j assume j: "j \<in> {lo..<lo + i}"
      then have "j - lo \<in> {0..<i}" by auto
      with a have "\<not> occurs_at sep (drop lo s) (j - lo)" by blast
      with assms j show "\<not> occurs_at sep s j" by (simp add: occurs_at_drop)
    qed
  next
    assume a: "\<forall>j\<in>{lo..<lo + i}. \<not> occurs_at sep s j"
    show "\<forall>j\<in>{0..<i}. \<not> occurs_at sep (drop lo s) j"
    proof
      fix j assume "j \<in> {0..<i}"
      then have "lo + j \<in> {lo..<lo + i}" by simp
      with a have "\<not> occurs_at sep s (lo + j)" by blast
      with assms show "\<not> occurs_at sep (drop lo s) j" by (simp add: occurs_at_drop)
    qed
  qed
  with assms show ?thesis by (simp add: first_from_def occurs_at_drop)
qed



lemma bytes_Index_cases:
  obtains (absent) "bytes_Index s sep = - 1" | (found) k where "bytes_Index s sep = int k"
proof -
  have "- 1 \<le> bytes_Index s sep" by (rule bytes_Index_ge)
  then have "bytes_Index s sep = - 1 \<or> bytes_Index s sep = int (nat (bytes_Index s sep))"
    by linarith
  with absent found show thesis by blast
qed

lemma bytes_Index_drop_absent:
  assumes "lo \<le> length s"
  shows "bytes_Index (drop lo s) sep = - 1 \<longleftrightarrow> (\<forall>j\<ge>lo. \<not> occurs_at sep s j)"
proof -
  have "(\<forall>i. \<not> occurs_at sep (drop lo s) i) \<longleftrightarrow> (\<forall>j\<ge>lo. \<not> occurs_at sep s j)"
  proof
    assume a: "\<forall>i. \<not> occurs_at sep (drop lo s) i"
    show "\<forall>j\<ge>lo. \<not> occurs_at sep s j"
    proof (intro allI impI)
      fix j assume j: "lo \<le> j"
      from a have "\<not> occurs_at sep (drop lo s) (j - lo)" by blast
      with assms j show "\<not> occurs_at sep s j" by (simp add: occurs_at_drop)
    qed
  next
    assume a: "\<forall>j\<ge>lo. \<not> occurs_at sep s j"
    show "\<forall>i. \<not> occurs_at sep (drop lo s) i"
    proof
      fix i from a have "\<not> occurs_at sep s (lo + i)" by simp
      with assms show "\<not> occurs_at sep (drop lo s) i" by (simp add: occurs_at_drop)
    qed
  qed
  then show ?thesis by (simp add: bytes_Index_absent)
qed

lemma bytes_Index_drop_first:
  assumes "lo \<le> length s"
  shows "bytes_Index (drop lo s) sep = int k \<longleftrightarrow> first_from sep s lo (lo + k)"
  using assms by (simp add: bytes_Index_first first_from_drop)

lemma first_from_unique:
  assumes "first_from sep s lo i" and "first_from sep s lo i'"
  shows "i = i'"
proof (rule ccontr)
  assume "i \<noteq> i'"
  then consider "i < i'" | "i' < i" by linarith
  then show False
  proof cases
    case 1
    with assms have "i \<in> {lo..<i'}" by (simp add: first_from_def)
    with assms show False unfolding first_from_def by blast
  next
    case 2
    with assms have "i' \<in> {lo..<i}" by (simp add: first_from_def)
    with assms show False unfolding first_from_def by blast
  qed
qed

lemma first_from_occurs: "first_from sep s lo i \<Longrightarrow> occurs_at sep s i \<and> lo \<le> i"
  by (simp add: first_from_def)

lemma occurs_at_bound: "occurs_at sep s i \<Longrightarrow> i + length sep \<le> length s"
  by (simp add: occurs_at_def)

text \<open>The scan, case by case.\<close>

lemma extract_no_marker:
  assumes "\<forall>i. \<not> occurs_at imgTagStart html i"
  shows "extractImageURL html = Inl ImageNotFound"
  using assms by (simp add: extractImageURL_def bytes_Index_absent)

lemma extract_marker:
  assumes "first_from imgTagStart html 0 i"
  shows "extractImageURL html =
     (let srcStartIndex = bytes_Index (drop i html) srcAttrStart in
          if srcStartIndex = - 1 then Inl SrcNotFound
          else
           (let srcStartIndex = srcStartIndex + (int i + int (length srcAttrStart)) in
            (case slice_from html srcStartIndex of
              None \<Rightarrow> Inl SliceBoundsPanic
            | Some rest' \<Rightarrow>
               (let srcEndIndex = bytes_Index rest' srcAttrEnd in
                if srcEndIndex = - 1 then Inl SrcUnterminated
                else
                 (let srcEndIndex = srcEndIndex + srcStartIndex in
                  (case slice html srcStartIndex srcEndIndex of
                    None \<Rightarrow> Inl SliceBoundsPanic
                  | Some url \<Rightarrow> Inr url))))))"
proof -
  from assms have idx: "bytes_Index html imgTagStart = int i" by (simp add: bytes_Index_first)
  from assms have "i \<le> length html"
    using first_from_occurs occurs_at_bound by fastforce
  then have "slice_from html (int i) = Some (drop i html)" by (simp add: slice_from_def)
  with idx show ?thesis by (simp add: extractImageURL_def Let_def)
qed

lemma extract_no_src:
  assumes "first_from imgTagStart html 0 i" and "\<forall>j\<ge>i. \<not> occurs_at srcAttrStart html j"
  shows "extractImageURL html = Inl SrcNotFound"
proof -
  from assms(1) have "i \<le> length html"
    using first_from_occurs occurs_at_bound by fastforce
  with assms(2) have "bytes_Index (drop i html) srcAttrStart = - 1"
    by (simp add: bytes_Index_drop_absent)
  then show ?thesis by (simp add: extract_marker[OF assms(1)])
qed

lemma extract_src:
  assumes "first_from imgTagStart html 0 i" and "first_from srcAttrStart html i j"
  shows "extractImageURL html =
     (let srcEndIndex = bytes_Index (drop (j + length srcAttrStart) html) srcAttrEnd in
                if srcEndIndex = - 1 then Inl SrcUnterminated
                else
                 (let srcEndIndex = srcEndIndex + int (j + length srcAttrStart) in
                  (case slice html (int (j + length srcAttrStart)) srcEndIndex of
                    None \<Rightarrow> Inl SliceBoundsPanic
                  | Some url \<Rightarrow> Inr url)))"
proof -
  from assms(1) have i: "i \<le> length html"
    using first_from_occurs occurs_at_bound by fastforce
  from assms(2) have ij: "i \<le> j" and j: "j + length srcAttrStart \<le> length html"
    using first_from_occurs occurs_at_bound by fastforce+
  from ij assms(2) have "first_from srcAttrStart html i (i + (j - i))" by simp
  with i have idx: "bytes_Index (drop i html) srcAttrStart = int (j - i)"
    by (simp only: bytes_Index_drop_first)
  have eq: "int (j - i) + (int i + int (length srcAttrStart)) = int (j + length srcAttrStart)"
    using ij by simp
  have sl: "slice_from html (int (j + length srcAttrStart)) = Some (drop (j + length srcAttrStart) html)"
    using j by (simp add: slice_from_def nat_int_add)
  show ?thesis
    unfolding extract_marker[OF assms(1)] idx Let_def eq sl by simp
qed

lemma extract_unterminated:
  assumes "first_from imgTagStart html 0 i" and "first_from srcAttrStart html i j"
    and "\<forall>k\<ge>j + length srcAttrStart. \<not> occurs_at srcAttrEnd html k"
  shows "extractImageURL html = Inl SrcUnterminated"
proof -
  from assms(2) have "j + length srcAttrStart \<le> length html"
    using first_from_occurs occurs_at_bound by fastforce
  with assms(3) have "bytes_Index (drop (j + length srcAttrStart) html) srcAttrEnd = - 1"
    by (simp only: bytes_Index_drop_absent)
  then show ?thesis by (simp add: extract_src[OF assms(1,2)])
qed

lemma extract_found:
  assumes "first_from imgTagStart html 0 i" and "first_from srcAttrStart html i j"
    and "first_from srcAttrEnd html (j + length srcAttrStart) k"
  shows "extractImageURL html =
     Inr (take (k - (j + length srcAttrStart)) (drop (j + length srcAttrStart) html))"
proof -
  let ?lo = "j + length srcAttrStart"
  from assms(2) have lo: "?lo \<le> length html"
    using first_from_occurs occurs_at_bound by fastforce
  from assms(3) have lk: "?lo \<le> k" and k: "k + length srcAttrEnd \<le> length html"
    using first_from_occurs occurs_at_bound by fastforce+
  from lk assms(3) have "first_from srcAttrEnd html ?lo (?lo + (k - ?lo))" by simp
  with lo have idx: "bytes_Index (drop ?lo html) srcAttrEnd = int (k - ?lo)"
    by (simp only: bytes_Index_drop_first)
  have eq: "int (k - ?lo) + int ?lo = int k" using lk by simp
  have "nat (int k - int ?lo) = k - ?lo" by linarith
  then have sl: "slice html (int ?lo) (int k) = Some (take (k - ?lo) (drop ?lo html))"
    using lk k unfolding slice_def by (simp only: nat_int of_nat_le_iff of_nat_0_le_iff) simp
  show ?thesis
    unfolding extract_src[OF assms(1,2)] idx Let_def eq sl by simp
qed

lemma first_from_exists:
  assumes "occurs_at sep s j" and "lo \<le> j"
  shows "\<exists>i. first_from sep s lo i"
proof -
  define P where "P i \<longleftrightarrow> lo \<le> i \<and> occurs_at sep s i" for i
  define m where "m = (LEAST i. P i)"
  from assms have "P j" by (simp add: P_def)
  then have Pm: "P m" unfolding m_def by (rule LeastI)
  have least: "\<not> P n" if "n < m" for n
    using that unfolding m_def by (rule not_less_Least)
  have "\<forall>n\<in>{lo..<m}. \<not> occurs_at sep s n"
  proof
    fix n assume n: "n \<in> {lo..<m}"
    then have "\<not> P n" using least by simp
    with n show "\<not> occurs_at sep s n" by (simp add: P_def)
  qed
  with Pm have "first_from sep s lo m" by (simp add: first_from_def P_def)
  then show ?thesis ..
qed

lemma extract_cases:
  obtains
    (no_marker) "\<forall>i. \<not> occurs_at imgTagStart html i" "extractImageURL html = Inl ImageNotFound"
  | (no_src) i where "first_from imgTagStart html 0 i"
      "\<forall>j\<ge>i. \<not> occurs_at srcAttrStart html j" "extractImageURL html = Inl SrcNotFound"
  | (unterminated) i j where "first_from imgTagStart html 0 i" "first_from srcAttrStart html i j"
      "\<forall>k\<ge>j + length srcAttrStart. \<not> occurs_at srcAttrEnd html k"
      "extractImageURL html = Inl SrcUnterminated"
  | (found) i j k where "first_from imgTagStart html 0 i" "first_from srcAttrStart html i j"
      "first_from srcAttrEnd html (j + length srcAttrStart) k"
      "extractImageURL html =
         Inr (take (k - (j + length srcAttrStart)) (drop (j + length srcAttrStart) html))"
proof (cases "\<forall>i. \<not> occurs_at imgTagStart html i")
  case True
  then show thesis by (rule no_marker) (rule extract_no_marker[OF True])
next
  case False
  then obtain i0 where "occurs_at imgTagStart html i0" by blast
  then obtain i where i: "first_from imgTagStart html 0 i"
    using first_from_exists[of imgTagStart html i0 0] by blast
  show thesis
  proof (cases "\<forall>j\<ge>i. \<not> occurs_at srcAttrStart html j")
    case True
    show thesis by (rule no_src[OF i True]) (rule extract_no_src[OF i True])
  next
    case False
    then obtain j0 where "occurs_at srcAttrStart html j0" "i \<le> j0" by blast
    then obtain j where j: "first_from srcAttrStart html i j"
      using first_from_exists[of srcAttrStart html j0 i] by blast
    show thesis
    proof (cases "\<forall>k\<ge>j + length srcAttrStart. \<not> occurs_at srcAttrEnd html k")
      case True
      show thesis by (rule unterminated[OF i j True]) (rule extract_unterminated[OF i j True])
    next
      case False
      then obtain k0 where "occurs_at srcAttrEnd html k0" "j + length srcAttrStart \<le> k0" by blast
      then obtain k where k: "first_from srcAttrEnd html (j + length srcAttrStart) k"
        using first_from_exists[of srcAttrEnd html k0 "j + length srcAttrStart"] by blast
      show thesis by (rule found[OF i j k]) (rule extract_found[OF i j k])
    qed
  qed
qed

lemma extract_ImageNotFound_iff:
  "extractImageURL html = Inl ImageNotFound \<longleftrightarrow> \<not> (\<exists>i. occurs_at imgTagStart html i)"
proof
  assume a: "extractImageURL html = Inl ImageNotFound"
  show "\<not> (\<exists>i. occurs_at imgTagStart html i)"
  proof (cases html rule: extract_cases)
    case no_marker
    then show ?thesis by simp
  next
    case (no_src i)
    with a show ?thesis by simp
  next
    case (unterminated i j)
    with a show ?thesis by simp
  next
    case (found i j k)
    with a show ?thesis by simp
  qed
next
  assume "\<not> (\<exists>i. occurs_at imgTagStart html i)"
  then have "\<forall>i. \<not> occurs_at imgTagStart html i" by simp
  then show "extractImageURL html = Inl ImageNotFound" by (rule extract_no_marker)
qed

lemma extract_SrcNotFound_iff:
  "extractImageURL html = Inl SrcNotFound \<longleftrightarrow>
     (\<exists>i. first_from imgTagStart html 0 i \<and> \<not> (\<exists>j\<ge>i. occurs_at srcAttrStart html j))"
  (is "?L \<longleftrightarrow> ?R")
proof
  assume a: ?L
  show ?R
  proof (cases html rule: extract_cases)
    case no_marker
    with a show ?thesis by simp
  next
    case (no_src i)
    from no_src(2) have "\<not> (\<exists>j\<ge>i. occurs_at srcAttrStart html j)" by simp
    with no_src(1) show ?thesis by (intro exI conjI)
  next
    case (unterminated i j)
    with a show ?thesis by simp
  next
    case (found i j k)
    with a show ?thesis by simp
  qed
next
  assume ?R
  then obtain i where i: "first_from imgTagStart html 0 i"
    and n: "\<not> (\<exists>j\<ge>i. occurs_at srcAttrStart html j)" by (elim exE conjE)
  from n have "\<forall>j\<ge>i. \<not> occurs_at srcAttrStart html j" by simp
  with i show ?L by (rule extract_no_src)
qed

lemma extract_SrcUnterminated_iff:
  "extractImageURL html = Inl SrcUnterminated \<longleftrightarrow>
     (\<exists>i j. first_from imgTagStart html 0 i \<and> first_from srcAttrStart html i j \<and>
          \<not> (\<exists>k\<ge>j + length srcAttrStart. occurs_at srcAttrEnd html k))"
  (is "?L \<longleftrightarrow> ?R")
proof
  assume a: ?L
  show ?R
  proof (cases html rule: extract_cases)
    case no_marker
    with a show ?thesis by simp
  next
    case (no_src i)
    with a show ?thesis by simp
  next
    case (unterminated i j)
    from unterminated(3)
    have "\<not> (\<exists>k\<ge>j + length srcAttrStart. occurs_at srcAttrEnd html k)" by simp
    with unterminated(1,2) show ?thesis by (intro exI conjI)
  next
    case (found i j k)
    with a show ?thesis by simp
  qed
next
  assume ?R
  then obtain i j where i: "first_from imgTagStart html 0 i"
    and j: "first_from srcAttrStart html i j"
    and n: "\<not> (\<exists>k\<ge>j + length srcAttrStart. occurs_at srcAttrEnd html k)"
    by (elim exE conjE)
  from n have "\<forall>k\<ge>j + length srcAttrStart. \<not> occurs_at srcAttrEnd html k" by simp
  with i j show ?L by (rule extract_unterminated)
qed

lemma extract_Inl_cases:
  assumes "extractImageURL html = Inl e"
  shows "e = ImageNotFound \<or> e = SrcNotFound \<or> e = SrcUnterminated"
proof (cases html rule: extract_cases)
  case no_marker
  with assms show ?thesis by simp
next
  case (no_src i)
  with assms show ?thesis by simp
next
  case (unterminated i j)
  with assms show ?thesis by simp
next
  case (found i j k)
  with assms show ?thesis by simp
qed

text \<open>
  Claim C1. For every HTML byte sequence, \<open>extractImageURL\<close> fails in exactly three
  cases, with three different errors and without a URL: \<open>ImageNotFound\<close> when the marker
  \<^verbatim>\<open><img id="result-image"\<close> occurs nowhere; \<open>SrcNotFound\<close> when the marker occurs (first
  at position \<open>i\<close>) but \<^verbatim>\<open>src="\<close> occurs nowhere at or after \<open>i\<close>; \<open>SrcUnterminated\<close>
  when \<^verbatim>\<open>src="\<close> occurs at or after the marker (first at position \<open>j\<close>) but no double
  quote occurs after it. No other failure exists: in particular no slice expression of
  the scan is ever out of range.
\<close>

theorem extractImageURL_errors:
  "(extractImageURL html = Inl ImageNotFound \<longleftrightarrow>
      \<not> (\<exists>i. occurs_at imgTagStart html i)) \<and>
   (extractImageURL html = Inl SrcNotFound \<longleftrightarrow>
      (\<exists>i. first_from imgTagStart html 0 i \<and>
           \<not> (\<exists>j\<ge>i. occurs_at srcAttrStart html j))) \<and>
   (extractImageURL html = Inl SrcUnterminated \<longleftrightarrow>
      (\<exists>i j. first_from imgTagStart html 0 i \<and> first_from srcAttrStart html i j \<and>
           \<not> (\<exists>k\<ge>j + length srcAttrStart. occurs_at srcAttrEnd html k))) \<and>
   (\<forall>e. extractImageURL html = Inl e \<longrightarrow>
        e = ImageNotFound \<or> e = SrcNotFound \<or> e = SrcUnterminated)"
proof (intro conjI allI impI)
  show "extractImageURL html = Inl ImageNotFound \<longleftrightarrow>
      \<not> (\<exists>i. occurs_at imgTagStart html i)"
    by (rule extract_ImageNotFound_iff)
  show "extractImageURL html = Inl SrcNotFound \<longleftrightarrow>
      (\<exists>i. first_from imgTagStart html 0 i \<and>
           \<not> (\<exists>j\<ge>i. occurs_at srcAttrStart html j))"
    by (rule extract_SrcNotFound_iff)
  show "extractImageURL html = Inl SrcUnterminated \<longleftrightarrow>
      (\<exists>i j. first_from imgTagStart html 0 i \<and> first_from srcAttrStart html i j \<and>
           \<not> (\<exists>k\<ge>j + length srcAttrStart. occurs_at srcAttrEnd html k))"
    by (rule extract_SrcUnterminated_iff)
  show "e = ImageNotFound \<or> e = SrcNotFound \<or> e = SrcUnterminated"
    if "extractImageURL html = Inl e" for e
    using that by (rule extract_Inl_cases)
qed

theorem extractImageURL_errors_witness:
  \<open>(extractImageURL ''<html><body><div>No image here</div></body></html>'' = Inl ImageNotFound \<and>
    \<not> (\<exists>i. occurs_at imgTagStart ''<html><body><div>No image here</div></body></html>'' i)) \<and>
   (extractImageURL ''<img id="result-image" alt="Result">'' = Inl SrcNotFound \<and>
    (\<exists>i. first_from imgTagStart ''<img id="result-image" alt="Result">'' 0 i \<and>
         \<not> (\<exists>j\<ge>i. occurs_at srcAttrStart ''<img id="result-image" alt="Result">'' j))) \<and>
   (extractImageURL ''<img id="result-image" src="https://x/y.jpg'' = Inl SrcUnterminated \<and>
    (\<exists>i j. first_from imgTagStart ''<img id="result-image" src="https://x/y.jpg'' 0 i \<and>
         first_from srcAttrStart ''<img id="result-image" src="https://x/y.jpg'' i j \<and>
         \<not> (\<exists>k\<ge>j + length srcAttrStart.
              occurs_at srcAttrEnd ''<img id="result-image" src="https://x/y.jpg'' k)))\<close>
proof (intro conjI)
  show 1: \<open>extractImageURL ''<html><body><div>No image here</div></body></html>'' = Inl ImageNotFound\<close>
    by code_simp
  show 2: \<open>extractImageURL ''<img id="result-image" alt="Result">'' = Inl SrcNotFound\<close>
    by code_simp
  show 3: \<open>extractImageURL ''<img id="result-image" src="https://x/y.jpg'' = Inl SrcUnterminated\<close>
    by code_simp
  show \<open>\<not> (\<exists>i. occurs_at imgTagStart ''<html><body><div>No image here</div></body></html>'' i)\<close>
    by (rule extractImageURL_errors [THEN conjunct1, THEN iffD1, OF 1])
  show \<open>\<exists>i. first_from imgTagStart ''<img id="result-image" alt="Result">'' 0 i \<and>
         \<not> (\<exists>j\<ge>i. occurs_at srcAttrStart ''<img id="result-image" alt="Result">'' j)\<close>
    by (rule extractImageURL_errors [THEN conjunct2, THEN conjunct1, THEN iffD1, OF 2])
  show \<open>\<exists>i j. first_from imgTagStart ''<img id="result-image" src="https://x/y.jpg'' 0 i \<and>
         first_from srcAttrStart ''<img id="result-image" src="https://x/y.jpg'' i j \<and>
         \<not> (\<exists>k\<ge>j + length srcAttrStart.
              occurs_at srcAttrEnd ''<img id="result-image" src="https://x/y.jpg'' k)\<close>
    by (rule extractImageURL_errors
          [THEN conjunct2, THEN conjunct2, THEN conjunct1, THEN iffD1, OF 3])
qed

lemma occurs_at_append_left:
  "occurs_at sep (a @ s) (length a + m) \<longleftrightarrow> occurs_at sep s m"
  by (simp add: occurs_at_def)

lemma occurs_at_quote:
  assumes "m < length X" and "occurs_at srcAttrEnd (X @ rest) m"
  shows "CHR 0x22 \<in> set X"
proof -
  from assms(1) have d: "drop m (X @ rest) = X ! m # (drop (Suc m) X @ rest)"
    by (simp add: Cons_nth_drop_Suc)
  from assms(2) have "take (Suc 0) (drop m (X @ rest)) = [CHR 0x22]"
    by (simp add: occurs_at_def srcAttrEnd_def)
  then have "X ! m = CHR 0x22"
    unfolding d by simp
  with assms(1) show ?thesis by (metis nth_mem)
qed

text \<open>
  Claim C4, as amended. Let the HTML be \<open>pre @ marker @ mid @ src=" @ X @ " @ post\<close> where
  \<open>X\<close> contains no double quote, the marker after \<open>pre\<close> is the first occurrence of the
  marker in the document, and the \<^verbatim>\<open>src="\<close> after \<open>mid\<close> is the first occurrence of
  \<^verbatim>\<open>src="\<close> at or after that marker. Then \<open>extractImageURL\<close> succeeds and returns exactly
  \<open>X\<close>: no quote, no surrounding white space.
\<close>

theorem extractImageURL_first_src:
  assumes html: "html = pre @ imgTagStart @ mid @ srcAttrStart @ X @ srcAttrEnd @ post"
    and marker: "first_from imgTagStart html 0 (length pre)"
    and src: "first_from srcAttrStart html (length pre)
                (length pre + length imgTagStart + length mid)"
    and X: "CHR 0x22 \<notin> set X"
  shows "extractImageURL html = Inr X"
proof -
  define a where "a = pre @ imgTagStart @ mid @ srcAttrStart"
  define j where "j = length pre + length imgTagStart + length mid"
  have la: "length a = j + length srcAttrStart" by (simp add: a_def j_def)
  have h: "html = a @ X @ srcAttrEnd @ post" by (simp add: html a_def)
  have "occurs_at srcAttrEnd (srcAttrEnd @ post) 0" by (simp add: occurs_at_def)
  then have "occurs_at srcAttrEnd ((a @ X) @ srcAttrEnd @ post) (length (a @ X) + 0)"
    by (simp only: occurs_at_append_left)
  then have occ: "occurs_at srcAttrEnd html (j + length srcAttrStart + length X)"
    by (simp add: h la)
  have none: "\<forall>n\<in>{j + length srcAttrStart ..< j + length srcAttrStart + length X}.
               \<not> occurs_at srcAttrEnd html n"
  proof
    fix n assume n: "n \<in> {j + length srcAttrStart ..< j + length srcAttrStart + length X}"
    define m where "m = n - length a"
    from n la have m: "m < length X" and nm: "n = length a + m" by (auto simp: m_def)
    show "\<not> occurs_at srcAttrEnd html n"
    proof
      assume "occurs_at srcAttrEnd html n"
      then have "occurs_at srcAttrEnd (X @ srcAttrEnd @ post) m"
        unfolding h nm by (simp only: occurs_at_append_left)
      with m have "CHR 0x22 \<in> set X" by (rule occurs_at_quote)
      with X show False by simp
    qed
  qed
  from occ none have e: "first_from srcAttrEnd html (j + length srcAttrStart)
       (j + length srcAttrStart + length X)"
    by (simp add: first_from_def)
  from src have s: "first_from srcAttrStart html (length pre) j" by (simp add: j_def)
  have "extractImageURL html =
     Inr (take (j + length srcAttrStart + length X - (j + length srcAttrStart))
            (drop (j + length srcAttrStart) html))"
    by (rule extract_found[OF marker s e])
  also have "drop (j + length srcAttrStart) html = X @ srcAttrEnd @ post"
    using la by (simp add: h)
  finally show ?thesis by simp
qed

theorem extractImageURL_first_src_witness:
  \<open>first_from imgTagStart
      (''<body>'' @ imgTagStart @ '' alt="r" '' @ srcAttrStart @ ''https://x/y.jpg'' @ srcAttrEnd @ ''>'')
      0 (length ''<body>'') \<and>
   first_from srcAttrStart
      (''<body>'' @ imgTagStart @ '' alt="r" '' @ srcAttrStart @ ''https://x/y.jpg'' @ srcAttrEnd @ ''>'')
      (length ''<body>'') (length ''<body>'' + length imgTagStart + length '' alt="r" '') \<and>
   CHR 0x22 \<notin> set ''https://x/y.jpg'' \<and>
   extractImageURL
      (''<body>'' @ imgTagStart @ '' alt="r" '' @ srcAttrStart @ ''https://x/y.jpg'' @ srcAttrEnd @ ''>'')
     = Inr ''https://x/y.jpg''\<close>
proof -
  have 1: \<open>first_from imgTagStart
      (''<body>'' @ imgTagStart @ '' alt="r" '' @ srcAttrStart @ ''https://x/y.jpg'' @ srcAttrEnd @ ''>'')
      0 (length ''<body>'')\<close>
    by code_simp
  have 2: \<open>first_from srcAttrStart
      (''<body>'' @ imgTagStart @ '' alt="r" '' @ srcAttrStart @ ''https://x/y.jpg'' @ srcAttrEnd @ ''>'')
      (length ''<body>'') (length ''<body>'' + length imgTagStart + length '' alt="r" '')\<close>
    by code_simp
  have 3: \<open>CHR 0x22 \<notin> set ''https://x/y.jpg''\<close> by simp
  from extractImageURL_first_src [OF refl 1 2 3] 1 2 3 show ?thesis by (intro conjI)
qed

text \<open>
  Claim C4 as it is written asks only that the marker is followed, somewhere, by
  \<^verbatim>\<open>src="X"\<close>. The scan takes the first \<^verbatim>\<open>src="\<close> after the first marker, so in
  \<^verbatim>\<open><img id="result-image" data-src="A" src="B">\<close> the marker is followed by \<^verbatim>\<open>src="B"\<close>,
  \<open>B\<close> has no double quote, and the result is \<open>A\<close>.
\<close>

theorem extractImageURL_later_src_counterexample:
  \<open>CHR 0x22 \<notin> set ''B'' \<and>
   extractImageURL
     ([] @ imgTagStart @ '' data-src="A" '' @ srcAttrStart @ ''B'' @ srcAttrEnd @ ''>'') = Inr ''A''
   \<and> ''A'' \<noteq> ''B''\<close>
  by code_simp

section \<open>Properties of the pipeline\<close>

text \<open>
  \<open>FatifyWithContext\<close> and \<open>ClownifyWithContext\<close> are \<open>applyEffectWithContext\<close> with
  their own effect path and parameters, so what holds of every effect operation is stated
  and proved for \<open>applyEffectWithContext\<close> with any path and any parameters. A
  session-bootstrap request is a request that \<open>generateSessIDWithContext\<close> issues, an
  exchange of the step \<open>Bootstrap\<close>.
\<close>

lemma map_of_map_set:
  "map_of (map_set k v m) k' = (if k' = k then Some v else map_of m k')"
  by (induction m) auto

lemma Header_Get_Set:
  "Header_Get (Header_Set k v req) k' = (if k' = k then Some v else Header_Get req k')"
  by (simp add: Header_Get_def Header_Set_def map_of_map_set)

lemma Header_Set_fields:
  "Method (Header_Set k v req) = Method req"
  "URL (Header_Set k v req) = URL req"
  "Body (Header_Set k v req) = Body req"
  by (simp_all add: Header_Set_def)

lemma browser_headers_fields:
  "Method (browser_headers req) = Method req"
  "URL (browser_headers req) = URL req"
  "Body (browser_headers req) = Body req"
  by (simp_all add: browser_headers_def Header_Set_fields)

lemma find_cookie:
  "find (\<lambda>cookie. fst cookie = k) xs = map_option (\<lambda>v. (k, v)) (map_of xs k)"
  by (induction xs) auto

lemma generateSessID_cases:
  assumes "generateSessIDWithContext E c = (r, c')"
  obtains (no_request) "r = Inl SessNewRequestFailed" "c' = c"
  | (failed) req res where "trace c' = trace c @ [Exchange Bootstrap req res]"
      "bootstrap_token res = None" "r = Inl (sess_error res)" "PHPSESSID c' = PHPSESSID c"
  | (stored) req res v where "trace c' = trace c @ [Exchange Bootstrap req res]"
      "bootstrap_token res = Some v" "r = Inr ()" "PHPSESSID c' = v"
  using assms
  unfolding generateSessIDWithContext_def client_Do_def Let_def
  by (auto simp: find_cookie split: option.splits sum.splits if_splits prod.splits)

lemma createRequest_cases:
  assumes "createRequestWithContext E method url b c = (r, c')"
  obtains (no_request) "r = Inl NewRequestFailed" "c' = c"
  | (held) req where "PHPSESSID c \<noteq> []" "c' = c" "r = Inr req"
      "Header_Get req ''Cookie'' = Some (session_cookie (PHPSESSID c))"
      "Method req = method" "URL req = url" "Body req = b"
  | (no_bootstrap) "PHPSESSID c = []" "r = Inl SessNewRequestFailed" "c' = c"
  | (boot_failed) breq bres where "PHPSESSID c = []"
      "trace c' = trace c @ [Exchange Bootstrap breq bres]"
      "bootstrap_token bres = None" "r = Inl (sess_error bres)" "PHPSESSID c' = []"
  | (boot_stored) breq bres v req where "PHPSESSID c = []"
      "trace c' = trace c @ [Exchange Bootstrap breq bres]"
      "bootstrap_token bres = Some v" "PHPSESSID c' = v" "r = Inr req"
      "Header_Get req ''Cookie'' = Some (session_cookie v)"
      "Method req = method" "URL req = url" "Body req = b"
proof (cases "http_NewRequestWithContext E method url b")
  case None
  with assms have "r = Inl NewRequestFailed" "c' = c"
    by (simp_all add: createRequestWithContext_def)
  then show thesis by (rule no_request)
next
  case (Some req0)
  then have f: "Method req0 = method" "URL req0 = url" "Body req0 = b"
    by (auto simp: http_NewRequestWithContext_def split: if_splits)
  define mk where "mk tok = Header_Set ''Cookie'' (session_cookie tok) (browser_headers req0)" for tok
  have mk: "Header_Get (mk tok) ''Cookie'' = Some (session_cookie tok)"
    "Method (mk tok) = method" "URL (mk tok) = url" "Body (mk tok) = b" for tok
    by (simp_all add: mk_def Header_Get_Set Header_Set_fields browser_headers_fields f)
  show thesis
  proof (cases "PHPSESSID c = []")
    case False
    with assms Some have "c' = c" "r = Inr (mk (PHPSESSID c))"
      by (auto simp: createRequestWithContext_def Let_def mk_def)
    with False show thesis using mk by (intro held)
  next
    case True
    obtain r1 c1 where g: "generateSessIDWithContext E c = (r1, c1)" by fastforce
    with assms Some True
    have res: "(r, c') = (case r1 of Inl err \<Rightarrow> (Inl err, c1)
                 | Inr u \<Rightarrow> (Inr (mk (PHPSESSID c1)), c1))"
      by (auto simp: createRequestWithContext_def Let_def mk_def split: sum.splits)
    from g show thesis
    proof (cases rule: generateSessID_cases)
      case no_request
      with res have "r = Inl SessNewRequestFailed" "c' = c" by simp_all
      with True show ?thesis by (intro no_bootstrap)
    next
      case (failed req res')
      with res have "r = Inl (sess_error res')" "c' = c1" by simp_all
      with True failed show ?thesis by (intro boot_failed[of req res']) simp_all
    next
      case (stored req res' v)
      with res have "r = Inr (mk v)" "c' = c1" by simp_all
      with True stored show ?thesis using mk by (intro boot_stored[of req res' v]) simp_all
    qed
  qed
qed


lemma cookies_ok_append:
  "cookies_ok tok (evs1 @ evs2) \<longleftrightarrow> cookies_ok tok evs1 \<and> cookies_ok (tok_after tok evs1) evs2"
  by (induction tok evs1 rule: cookies_ok.induct) auto

lemma tok_after_append:
  "tok_after tok (evs1 @ evs2) = tok_after (tok_after tok evs1) evs2"
  by (induction tok evs1 rule: tok_after.induct) auto

lemma exchanges_append: "exchanges (evs1 @ evs2) = exchanges evs1 @ exchanges evs2"
  by (simp add: exchanges_def)

lemma clean_exchanges: "list_all clean_ev (exchanges evs) \<longleftrightarrow> list_all clean_ev evs"
proof (induction evs)
  case Nil
  then show ?case by (simp add: exchanges_def)
next
  case (Cons e evs)
  then show ?case by (cases e) (simp_all add: exchanges_def)
qed

lemma run_shape_success:
  assumes "run_shape (Inr y) evs"
  shows "list_all clean_ev evs"
proof -
  have "\<not> failure_of x (Inr y :: error + 'a)" for x
    by (cases x) (auto split: sum.splits)
  with assms show ?thesis by (auto simp: run_shape_def)
qed

lemma run_shape_clean: "list_all clean_ev evs \<Longrightarrow> \<not> status_failure r \<Longrightarrow> run_shape r evs"
  by (simp add: run_shape_def)

lemma run_shape_append:
  assumes "list_all clean_ev evs1" and "run_shape r evs2"
  shows "run_shape r (evs1 @ evs2)"
proof (cases "list_all clean_ev evs2 \<and> \<not> status_failure r")
  case True
  with assms(1) show ?thesis by (simp add: run_shape_def)
next
  case False
  with assms(2) obtain pre x where p: "exchanges evs2 = pre @ [x]" "list_all clean_ev pre"
    "\<not> clean_ev x" "failure_of x r"
    unfolding run_shape_def by blast
  from assms(1) have "list_all clean_ev (exchanges evs1)" by (simp add: clean_exchanges)
  with p have "exchanges (evs1 @ evs2) = (exchanges evs1 @ pre) @ [x]"
    "list_all clean_ev (exchanges evs1 @ pre)"
    by (simp_all add: exchanges_append)
  with p(3,4) show ?thesis unfolding run_shape_def by blast
qed

lemma failure_of_root:
  assumes "failure_of x (Inl e :: error + 'a)" and "root_cause e' = root_cause e"
  shows "failure_of x (Inl e' :: error + 'b)"
  using assms by (cases x) (auto split: if_splits sum.splits)

lemma run_shape_root:
  assumes "run_shape (Inl e :: error + 'a) evs" and "root_cause e' = root_cause e"
  shows "run_shape (Inl e' :: error + 'b) evs"
proof -
  have "status_failure (Inl e' :: error + 'b) = status_failure (Inl e :: error + 'a)"
    using assms(2) by simp
  with assms failure_of_root[of _ e e'] show ?thesis unfolding run_shape_def by blast
qed

lemma only_steps_append:
  "only_steps S (evs1 @ evs2) \<longleftrightarrow> only_steps S evs1 \<and> only_steps S evs2"
  by (auto simp: only_steps_def)

lemma only_steps_mono: "S \<subseteq> S' \<Longrightarrow> only_steps S evs \<Longrightarrow> only_steps S' evs"
  unfolding only_steps_def by blast

lemma stage_refl: "\<not> status_failure r \<Longrightarrow> stage S c r c"
  by (simp add: stage_def only_steps_def run_shape_def)

lemma stage_mono: "S \<subseteq> S' \<Longrightarrow> stage S c r c' \<Longrightarrow> stage S' c r c'"
  unfolding stage_def using only_steps_mono by blast

lemma stage_seq:
  assumes "stage S c (Inr y :: error + 'a) c1" and "stage S c1 (r :: error + 'b) c2"
  shows "stage S c r c2"
proof -
  from assms(1) obtain evs1 where 1: "trace c1 = trace c @ evs1" "only_steps S evs1"
    "cookies_ok (PHPSESSID c) evs1" "PHPSESSID c1 = tok_after (PHPSESSID c) evs1"
    "run_shape (Inr y :: error + 'a) evs1"
    unfolding stage_def by blast
  from assms(2) obtain evs2 where 2: "trace c2 = trace c1 @ evs2" "only_steps S evs2"
    "cookies_ok (PHPSESSID c1) evs2" "PHPSESSID c2 = tok_after (PHPSESSID c1) evs2"
    "run_shape r evs2"
    unfolding stage_def by blast
  from 1(5) have cl: "list_all clean_ev evs1" by (rule run_shape_success)
  have "trace c2 = trace c @ (evs1 @ evs2)" using 1(1) 2(1) by simp
  moreover have "only_steps S (evs1 @ evs2)" using 1(2) 2(2) by (simp add: only_steps_append)
  moreover have "cookies_ok (PHPSESSID c) (evs1 @ evs2)"
    using 1(3,4) 2(3) by (simp add: cookies_ok_append)
  moreover have "PHPSESSID c2 = tok_after (PHPSESSID c) (evs1 @ evs2)"
    using 1(4) 2(4) by (simp add: tok_after_append)
  moreover have "run_shape r (evs1 @ evs2)" using cl 2(5) by (rule run_shape_append)
  ultimately show ?thesis unfolding stage_def by blast
qed

lemma stage_any:
  assumes "stage S c (Inr y :: error + 'a) c'" and "\<not> status_failure r"
  shows "stage S c (r :: error + 'b) c'"
  using stage_seq[OF assms(1) stage_refl[OF assms(2)]] .

lemma stage_root:
  assumes "stage S c (Inl e :: error + 'a) c'" and "root_cause e' = root_cause e"
  shows "stage S c (Inl e' :: error + 'b) c'"
  using assms run_shape_root[of e _ e'] unfolding stage_def by blast

lemma stage_Do:
  assumes "client_Do E st req c = (res, c')" and "st \<noteq> Bootstrap" and "st \<in> S"
    and "Header_Get req ''Cookie'' = Some (session_cookie (PHPSESSID c))"
    and "if clean_ev (Exchange st req res) then \<not> status_failure r
         else failure_of (Exchange st req res) r"
  shows "stage S c r c'"
proof -
  from assms(1) have t: "trace c' = trace c @ [Exchange st req res]" "PHPSESSID c' = PHPSESSID c"
    by (auto simp: client_Do_def Let_def)
  have "run_shape r [Exchange st req res]"
  proof (cases "clean_ev (Exchange st req res)")
    case True
    with assms(5) show ?thesis by (simp add: run_shape_def)
  next
    case False
    with assms(5) have "failure_of (Exchange st req res) r" by simp
    with False have "exchanges [Exchange st req res] = [] @ [Exchange st req res] \<and> list_all clean_ev [] \<and>
      \<not> clean_ev (Exchange st req res) \<and> failure_of (Exchange st req res) r"
      by (simp add: exchanges_def)
    then show ?thesis unfolding run_shape_def by blast
  qed
  with t assms(2,3,4) show ?thesis
    unfolding stage_def by (intro exI[of _ "[Exchange st req res]"]) (simp add: only_steps_def)
qed

lemma root_cause_sess_error: "root_cause (sess_error res) = sess_error res"
  by (cases res) simp_all

lemma root_cause_status_error: "root_cause (status_error st s) = status_error st s"
  by (cases st) simp_all

lemma stage_create:
  assumes "createRequestWithContext E method url b c = (r, c')"
  shows "stage {Bootstrap} c r c'"
  using assms
proof (cases rule: createRequest_cases)
  case no_request
  then show ?thesis by (simp add: stage_refl)
next
  case (held req)
  then show ?thesis by (simp add: stage_refl)
next
  case no_bootstrap
  then show ?thesis by (simp add: stage_refl)
next
  case (boot_failed breq bres)
  have "exchanges [Exchange Bootstrap breq bres] = [] @ [Exchange Bootstrap breq bres]"
    by (simp add: exchanges_def)
  moreover have "\<not> clean_ev (Exchange Bootstrap breq bres)"
    "failure_of (Exchange Bootstrap breq bres) r"
    using boot_failed by (simp_all add: root_cause_sess_error)
  moreover have "list_all clean_ev []" by simp
  ultimately have "run_shape r [Exchange Bootstrap breq bres]"
    unfolding run_shape_def by blast
  with boot_failed show ?thesis
    unfolding stage_def
    by (intro exI[of _ "[Exchange Bootstrap breq bres]"]) (simp add: only_steps_def)
next
  case (boot_stored breq bres v req)
  then have "run_shape r [Exchange Bootstrap breq bres]" by (simp add: run_shape_def)
  with boot_stored show ?thesis
    unfolding stage_def
    by (intro exI[of _ "[Exchange Bootstrap breq bres]"]) (simp add: only_steps_def)
qed

lemma create_cookie:
  assumes "createRequestWithContext E method url b c = (Inr req, c')"
  shows "Header_Get req ''Cookie'' = Some (session_cookie (PHPSESSID c'))"
    "Method req = method" "URL req = url" "Body req = b"
  using assms by (cases rule: createRequest_cases; simp)+


lemma stage_create_failed:
  assumes "createRequestWithContext E method url b c = (Inl err, c1)"
    and "root_cause e = root_cause err" and "Bootstrap \<in> S"
  shows "stage S c (Inl e :: error + 'a) c1"
proof -
  have "stage {Bootstrap} c (Inl err :: error + request) c1" using assms(1) by (rule stage_create)
  then have "stage {Bootstrap} c (Inl e :: error + 'a) c1" using assms(2) by (rule stage_root)
  then show ?thesis using assms(3) by (intro stage_mono[of "{Bootstrap}" S]) simp_all
qed

lemma stage_request:
  assumes cr: "createRequestWithContext E method url b c = (Inr req, c1)"
    and hd: "Header_Get req' ''Cookie'' = Header_Get req ''Cookie''"
    and do: "client_Do E st req' c1 = (res, c2)"
    and st: "st \<noteq> Bootstrap" "Bootstrap \<in> S" "st \<in> S"
    and f: "if clean_ev (Exchange st req' res) then \<not> status_failure r
            else failure_of (Exchange st req' res) r"
  shows "stage S c r c2"
proof -
  have "stage {Bootstrap} c (Inr req :: error + request) c1" using cr by (rule stage_create)
  then have 1: "stage S c (Inr req :: error + request) c1"
    using st(2) by (intro stage_mono[of "{Bootstrap}" S]) simp_all
  have "Header_Get req' ''Cookie'' = Some (session_cookie (PHPSESSID c1))"
    using hd create_cookie(1)[OF cr] by simp
  with do st have 2: "stage S c1 r c2" using f by (intro stage_Do[of E st req' c1 res]) simp_all
  from 1 2 show ?thesis by (rule stage_seq)
qed

lemma stage_request_failed:
  assumes "createRequestWithContext E method url b c = (Inr req, c1)"
    and "Header_Get req' ''Cookie'' = Header_Get req ''Cookie''"
    and "client_Do E st req' c1 = (Inl err, c2)"
    and "st \<noteq> Bootstrap" "Bootstrap \<in> S" "st \<in> S"
    and "\<not> is_status_error (root_cause e)"
  shows "stage S c (Inl e :: error + 'a) c2"
  using assms by (intro stage_request[of E _ _ _ c req c1 req' st "Inl err"]) simp_all

lemma stage_request_status:
  assumes "createRequestWithContext E method url b c = (Inr req, c1)"
    and "Header_Get req' ''Cookie'' = Header_Get req ''Cookie''"
    and "client_Do E st req' c1 = (Inr resp, c2)"
    and "st \<noteq> Bootstrap" "Bootstrap \<in> S" "st \<in> S"
    and "StatusCode resp \<noteq> 200" and "e = status_error st (Status resp)"
  shows "stage S c (Inl e :: error + 'a) c2"
  using assms
  by (intro stage_request[of E _ _ _ c req c1 req' st "Inr resp"])
    (simp_all add: root_cause_status_error)

lemma stage_request_ok:
  assumes "createRequestWithContext E method url b c = (Inr req, c1)"
    and "Header_Get req' ''Cookie'' = Header_Get req ''Cookie''"
    and "client_Do E st req' c1 = (Inr resp, c2)"
    and "st \<noteq> Bootstrap" "Bootstrap \<in> S" "st \<in> S"
    and "StatusCode resp = 200" and "\<not> status_failure r"
  shows "stage S c (r :: error + 'a) c2"
  using assms by (intro stage_request[of E _ _ _ c req c1 req' st "Inr resp"]) simp_all

lemma stage_getResult:
  assumes run: "getResultImageWithContext E resultURL c = (r, c')"
  shows "stage {Bootstrap, ResultPage, ImageDownload} c r c'"
proof -
  let ?S = "{Bootstrap, ResultPage, ImageDownload}"
  obtain cr c1 where cr: "createRequestWithContext E ''GET'' resultURL NoBody c = (cr, c1)"
    by fastforce
  show ?thesis
  proof (cases cr)
    case (Inl err)
    with run cr have "r = Inl (ResultCreateFailed err)" "c' = c1"
      by (auto simp: getResultImageWithContext_def)
    with cr Inl show ?thesis by (simp add: stage_create_failed)
  next
    case (Inr req)
    note cr = cr[unfolded Inr]
    obtain res c2 where do: "client_Do E ResultPage req c1 = (res, c2)" by fastforce
    have unit_ok: "stage ?S c (x :: error + 'a) c2"
      if "res = Inr resp" "StatusCode resp = 200" "\<not> status_failure x" for x resp
      using cr do that by (intro stage_request_ok[of E _ _ _ c req c1 req ResultPage resp]) simp_all
    show ?thesis
    proof (cases res)
      case (Inl err)
      with run cr do have "r = Inl (ResultDoFailed err)" "c' = c2"
        by (auto simp: getResultImageWithContext_def)
      with cr do Inl show ?thesis
        by (simp add: stage_request_failed[of E _ _ _ c req c1 req ResultPage err])
    next
      case (Inr resp)
      show ?thesis
      proof (cases "StatusCode resp = 200")
        case False
        with run cr do Inr have "r = Inl (ResultNonOK (Status resp))" "c' = c2"
          by (auto simp: getResultImageWithContext_def)
        with cr do Inr False show ?thesis
          by (simp add: stage_request_status[of E _ _ _ c req c1 req ResultPage resp])
      next
        case True
        note ok = unit_ok[OF Inr True]
        show ?thesis
        proof (cases "io_ReadAll (RespBody resp)")
          case (Inl err)
          with run cr do \<open>res = Inr resp\<close> True have "r = Inl (ReadHTMLFailed err)" "c' = c2"
            by (auto simp: getResultImageWithContext_def)
          with ok[of r] show ?thesis by simp
        next
          case html: (Inr htmlContent)
          show ?thesis
          proof (cases "extractImageURL htmlContent")
            case (Inl err)
            with run cr do \<open>res = Inr resp\<close> True html have "r = Inl err" "c' = c2"
              by (auto simp: getResultImageWithContext_def)
            moreover from extract_Inl_cases[OF Inl] have "\<not> is_status_error (root_cause err)"
              by auto
            ultimately show ?thesis using ok[of r] by simp
          next
            case url: (Inr imageURL)
            obtain cr2 c3 where
              cr2: "createRequestWithContext E ''GET'' imageURL NoBody c2 = (cr2, c3)"
              by fastforce
            have first: "stage ?S c (Inr () :: error + unit) c2" by (rule ok) simp
            show ?thesis
            proof (cases cr2)
              case (Inl err)
              with run cr do \<open>res = Inr resp\<close> True html url cr2
              have "r = Inl (ImageCreateFailed err)" "c' = c3"
                by (auto simp: getResultImageWithContext_def)
              moreover have "stage ?S c2 (Inl (ImageCreateFailed err) :: error + bytes) c3"
                using cr2 Inl by (simp add: stage_create_failed)
              ultimately show ?thesis using stage_seq[OF first] by simp
            next
              case req2: (Inr imgReq)
              note cr2 = cr2[unfolded req2]
              define imgReq' where "imgReq' = Header_Set ''Referer'' resultURL
                             (Header_Set ''Accept''
                                ''image/avif,image/webp,image/apng,image/svg+xml,image/*,*/*;q=0.8''
                                imgReq)"
              have hd: "Header_Get imgReq' ''Cookie'' = Header_Get imgReq ''Cookie''"
                by (simp add: imgReq'_def Header_Get_Set)
              obtain res2 c4 where do2: "client_Do E ImageDownload imgReq' c3 = (res2, c4)"
                by fastforce
              from run cr do \<open>res = Inr resp\<close> True html url cr2 do2
              have rr: "(r, c') = (case res2 of
                             (Inl err) \<Rightarrow> (Inl (ImageDoFailed err), c4)
                           | (Inr imgResp) \<Rightarrow>
                               if StatusCode imgResp \<noteq> 200
                               then (Inl (ImageNonOK (Status imgResp)), c4)
                               else (case io_ReadAll (RespBody imgResp) of
                                       Inl err \<Rightarrow> (Inl (ReadImageFailed err), c4)
                                     | Inr imageData \<Rightarrow> (Inr imageData, c4)))"
                by (simp add: getResultImageWithContext_def Let_def imgReq'_def)
              have "stage ?S c2 r c4"
              proof (cases res2)
                case (Inl err)
                with rr have "r = Inl (ImageDoFailed err)" by simp
                with cr2 hd do2 Inl show ?thesis
                  by (simp add: stage_request_failed[of E _ _ _ c2 imgReq c3 imgReq' ImageDownload err])
              next
                case (Inr imgResp)
                show ?thesis
                proof (cases "StatusCode imgResp = 200")
                  case False
                  with rr Inr have "r = Inl (ImageNonOK (Status imgResp))" by simp
                  with cr2 hd do2 Inr False show ?thesis
                    by (simp add: stage_request_status[of E _ _ _ c2 imgReq c3 imgReq' ImageDownload imgResp])
                next
                  case True
                  with rr Inr have "\<not> status_failure r" by (auto split: sum.splits)
                  with True cr2 hd do2 Inr show ?thesis
                    by (simp add: stage_request_ok[of E _ _ _ c2 imgReq c3 imgReq' ImageDownload imgResp])
                qed
              qed
              moreover from rr have "c' = c4" by (auto split: sum.splits if_splits)
              ultimately show ?thesis using stage_seq[OF first] by simp
            qed
          qed
        qed
      qed
    qed
  qed
qed


lemma upload_cases:
  assumes run: "uploadImageWithContext E img c = (r, c')"
  obtains
    (no_exchange) e where "trace c' = trace c @ [ReadAllImage, CloseImage]"
      "PHPSESSID c' = PHPSESSID c" "r = Inl e" "root_cause e = e" "e \<noteq> EmptyKey"
      "\<not> is_status_error e"
  | (up_boot_failed) breq bres where "PHPSESSID c = []"
      "trace c' = trace c @ [ReadAllImage, Exchange Bootstrap breq bres, CloseImage]"
      "bootstrap_token bres = None" "r = Inl (sess_error bres)" "PHPSESSID c' = []"
  | (sent_held) ureq ures where "PHPSESSID c \<noteq> []" "PHPSESSID c' = PHPSESSID c"
      "trace c' = trace c @ [ReadAllImage, Exchange Upload ureq ures, CloseImage]"
      "Header_Get ureq ''Cookie'' = Some (session_cookie (PHPSESSID c))"
      "r = (case ures of
              Inl err \<Rightarrow> Inl (UploadDoFailed err)
            | Inr resp \<Rightarrow>
                if StatusCode resp \<noteq> 200 then Inl (NonOKStatus (Status resp))
                else (case json_Decode E (RespBody resp) of
                        None \<Rightarrow> Inl DecodeFailed
                      | Some photoFuniaResp \<Rightarrow> Inr photoFuniaResp))"
  | (sent_boot) breq bres v ureq ures where "PHPSESSID c = []" "PHPSESSID c' = v"
      "bootstrap_token bres = Some v"
      "trace c' = trace c @
         [ReadAllImage, Exchange Bootstrap breq bres, Exchange Upload ureq ures, CloseImage]"
      "Header_Get ureq ''Cookie'' = Some (session_cookie v)"
      "r = (case ures of
              Inl err \<Rightarrow> Inl (UploadDoFailed err)
            | Inr resp \<Rightarrow>
                if StatusCode resp \<noteq> 200 then Inl (NonOKStatus (Status resp))
                else (case json_Decode E (RespBody resp) of
                        None \<Rightarrow> Inl DecodeFailed
                      | Some photoFuniaResp \<Rightarrow> Inr photoFuniaResp))"
proof -
  define c0 where "c0 = c\<lparr>trace := trace c @ [ReadAllImage]\<rparr>"
  have c0: "trace c0 = trace c @ [ReadAllImage]" "PHPSESSID c0 = PHPSESSID c"
    by (simp_all add: c0_def)
  obtain rb cb where body: "uploadImage_body E img c = (rb, cb)" by fastforce
  with run have fin: "r = rb" "trace c' = trace cb @ [CloseImage]" "PHPSESSID c' = PHPSESSID cb"
    by (auto simp: uploadImageWithContext_def)
  show thesis
  proof (cases "io_ReadAll img")
    case (Inl err)
    with body have "rb = Inl (ReadImageFailed err)" "cb = c0"
      by (auto simp: uploadImage_body_def Let_def c0_def)
    with fin c0 show thesis by (intro no_exchange[of "ReadImageFailed err"]) simp_all
  next
    case (Inr imageData)
    define b where "b = Multipart uploadBoundary [FormFile ''image'' ''image.png'' imageData]"
    obtain cr c1 where
      cr: "createRequestWithContext E ''POST'' (baseURL @ ''/images?server=1'') b c0 = (cr, c1)"
      by fastforce
    define hdr where "hdr req =
                  Header_Set ''Referer'' (baseURL @ ''/categories/all_effects/clown'')
                   (Header_Set ''Content-Type'' (''multipart/form-data; boundary='' @ uploadBoundary)
                    (Header_Set ''Accept'' ''application/json, text/javascript, */*; q=0.01'' req))"
      for req
    have hdr: "Header_Get (hdr req) ''Cookie'' = Header_Get req ''Cookie''" for req
      by (simp add: hdr_def Header_Get_Set)
    from body Inr cr have rb: "(rb, cb) =
        (case cr of
              Inl err \<Rightarrow> (Inl err, c1)
            | Inr req \<Rightarrow>
                (case client_Do E Upload (hdr req) c1 of
                   (Inl err, c2) \<Rightarrow> (Inl (UploadDoFailed err), c2)
                 | (Inr resp, c2) \<Rightarrow>
                     if StatusCode resp \<noteq> 200 then (Inl (NonOKStatus (Status resp)), c2)
                     else (case json_Decode E (RespBody resp) of
                             None \<Rightarrow> (Inl DecodeFailed, c2)
                           | Some photoFuniaResp \<Rightarrow> (Inr photoFuniaResp, c2))))"
      by (simp add: uploadImage_body_def Let_def c0_def b_def hdr_def split: sum.splits)
    have sent: "rb = (case ures of
              Inl err \<Rightarrow> Inl (UploadDoFailed err)
            | Inr resp \<Rightarrow>
                if StatusCode resp \<noteq> 200 then Inl (NonOKStatus (Status resp))
                else (case json_Decode E (RespBody resp) of
                        None \<Rightarrow> Inl DecodeFailed
                      | Some photoFuniaResp \<Rightarrow> Inr photoFuniaResp)) \<and>
         trace cb = trace c1 @ [Exchange Upload (hdr req) ures] \<and> PHPSESSID cb = PHPSESSID c1"
      if "cr = Inr req" "ures = transport E (trace c1) (hdr req)" for req ures
      using rb that by (auto simp: client_Do_def Let_def split: sum.splits option.splits)
    from cr show thesis
    proof (cases rule: createRequest_cases)
      case no_request
      with rb have "rb = Inl NewRequestFailed" "cb = c0" by simp_all
      with fin c0 show ?thesis by (intro no_exchange[of NewRequestFailed]) simp_all
    next
      case (held req)
      note s = sent[OF held(3) refl]
      show ?thesis
      proof (rule sent_held)
        show "PHPSESSID c \<noteq> []" using held c0 by simp
        show "PHPSESSID c' = PHPSESSID c" using held fin s c0 by simp
        show "trace c' = trace c @ [ReadAllImage,
                Exchange Upload (hdr req) (transport E (trace c1) (hdr req)), CloseImage]"
          using held fin s c0 by simp
        show "Header_Get (hdr req) ''Cookie'' = Some (session_cookie (PHPSESSID c))"
          using held c0 by (simp add: hdr)
        show "r = (case transport E (trace c1) (hdr req) of
              Inl err \<Rightarrow> Inl (UploadDoFailed err)
            | Inr resp \<Rightarrow>
                if StatusCode resp \<noteq> 200 then Inl (NonOKStatus (Status resp))
                else (case json_Decode E (RespBody resp) of
                        None \<Rightarrow> Inl DecodeFailed
                      | Some photoFuniaResp \<Rightarrow> Inr photoFuniaResp))"
          using fin s by simp
      qed
    next
      case no_bootstrap
      with rb have "rb = Inl SessNewRequestFailed" "cb = c0" by simp_all
      with fin c0 show ?thesis by (intro no_exchange[of SessNewRequestFailed]) simp_all
    next
      case (boot_failed breq bres)
      with rb have "rb = Inl (sess_error bres)" "cb = c1" by simp_all
      with fin c0 boot_failed show ?thesis by (intro up_boot_failed[of breq bres]) simp_all
    next
      case (boot_stored breq bres v req)
      note s = sent[OF boot_stored(5) refl]
      show ?thesis
      proof (rule sent_boot)
        show "PHPSESSID c = []" using boot_stored c0 by simp
        show "PHPSESSID c' = v" using boot_stored fin s by simp
        show "bootstrap_token bres = Some v" by fact
        show "trace c' = trace c @ [ReadAllImage, Exchange Bootstrap breq bres,
                Exchange Upload (hdr req) (transport E (trace c1) (hdr req)), CloseImage]"
          using boot_stored fin s c0 by simp
        show "Header_Get (hdr req) ''Cookie'' = Some (session_cookie v)"
          using boot_stored by (simp add: hdr)
        show "r = (case transport E (trace c1) (hdr req) of
              Inl err \<Rightarrow> Inl (UploadDoFailed err)
            | Inr resp \<Rightarrow>
                if StatusCode resp \<noteq> 200 then Inl (NonOKStatus (Status resp))
                else (case json_Decode E (RespBody resp) of
                        None \<Rightarrow> Inl DecodeFailed
                      | Some photoFuniaResp \<Rightarrow> Inr photoFuniaResp))"
          using fin s by simp
      qed
    qed
  qed
qed

lemma new_events_append: "trace c' = trace c @ evs \<Longrightarrow> new_events c c' = evs"
  by (simp add: new_events_def)

lemma stage_new_events:
  assumes "stage S c r c'"
  shows "trace c' = trace c @ new_events c c'" "only_steps S (new_events c c')"
    "cookies_ok (PHPSESSID c) (new_events c c')"
    "PHPSESSID c' = tok_after (PHPSESSID c) (new_events c c')"
    "run_shape r (new_events c c')"
proof -
  from assms obtain evs where e: "trace c' = trace c @ evs" "only_steps S evs"
    "cookies_ok (PHPSESSID c) evs" "PHPSESSID c' = tok_after (PHPSESSID c) evs" "run_shape r evs"
    unfolding stage_def by blast
  from e(1) have "new_events c c' = evs" by (rule new_events_append)
  with e show "trace c' = trace c @ new_events c c'" "only_steps S (new_events c c')"
    "cookies_ok (PHPSESSID c) (new_events c c')"
    "PHPSESSID c' = tok_after (PHPSESSID c) (new_events c c')"
    "run_shape r (new_events c c')"
    by simp_all
qed

lemma only_steps_no_step:
  assumes "only_steps S evs" and "st \<notin> S" and "Exchange st req res \<in> set evs"
  shows False
proof -
  from assms(1,3) obtain st' where "st' \<in> S" "is_step st' (Exchange st req res)"
    unfolding only_steps_def by blast
  with assms(2) show False by simp
qed

lemma applyEffect_tail:
  assumes up: "uploadImageWithContext E img c = (Inr pr, c1)"
    and key: "Key (Response pr) \<noteq> []"
    and run: "applyEffectWithContext E img effectPath params effectName c = (r, c')"
  shows "stage {Bootstrap, Effect, ResultPage, ImageDownload} c1 r c'"
    and "\<forall>req res. Exchange Effect req res \<in> set (new_events c1 c') \<longrightarrow>
           Body req = effect_body E params (Key (Response pr))"
proof -
  let ?S = "{Bootstrap, Effect, ResultPage, ImageDownload}"
  let ?b = "effect_body E params (Key (Response pr))"
  let ?url = "baseURL @ ''/categories/'' @ effectPath @ ''?server=1''"
  define hdr where "hdr req = Header_Set ''Referer'' (baseURL @ ''/categories/'' @ effectPath)
                    (Header_Set ''Content-Type''
                       (''multipart/form-data; boundary='' @ defaultBoundary) req)" for req
  have hdr: "Header_Get (hdr req) ''Cookie'' = Header_Get req ''Cookie''"
    "Body (hdr req) = Body req" for req
    by (simp_all add: hdr_def Header_Get_Set Header_Set_fields)
  obtain cr c2 where cr: "createRequestWithContext E ''POST'' ?url ?b c1 = (cr, c2)"
    by fastforce
  from run up key cr have rr: "(r, c') =
       (case cr of
               Inl err \<Rightarrow> (Inl err, c2)
             | Inr req \<Rightarrow>
                 (case client_Do E Effect (hdr req) c2 of
                    (Inl err, c3) \<Rightarrow> (Inl (EffectDoFailed effectName err), c3)
                  | (Inr resp, c3) \<Rightarrow>
                      if StatusCode resp \<noteq> 200 then (Inl (NonOKStatus (Status resp)), c3)
                      else getResultImageWithContext E (RequestURL resp) c3))"
    by (simp add: applyEffectWithContext_def Let_def effect_body_def hdr_def split: sum.splits)
  have s1: "stage {Bootstrap} c1 cr c2" using cr by (rule stage_create)
  note e1 = stage_new_events[OF s1]
  have goal: "stage ?S c1 r c' \<and> (\<forall>req res. Exchange Effect req res \<in> set (new_events c1 c') \<longrightarrow>
           Body req = ?b)"
  proof (cases cr)
    case (Inl err)
    with rr have f: "r = Inl err" "c' = c2" by simp_all
    have "stage ?S c1 r c'" using cr Inl f by (simp add: stage_create_failed)
    moreover have "\<not> Exchange Effect req res \<in> set (new_events c1 c')" for req res
      using only_steps_no_step[OF e1(2), of Effect req res] f by auto
    ultimately show ?thesis by blast
  next
    case (Inr req)
    note cr = cr[unfolded Inr]
    obtain res c3 where do: "client_Do E Effect (hdr req) c2 = (res, c3)" by fastforce
    then have t3: "trace c3 = trace c2 @ [Exchange Effect (hdr req) res]"
      by (auto simp: client_Do_def Let_def)
    have b: "Body (hdr req) = ?b" using create_cookie(4)[OF cr] by (simp add: hdr)
    have upto3: "Body req' = ?b"
      if "Exchange Effect req' res' \<in> set (new_events c1 c2 @ [Exchange Effect (hdr req) res])"
      for req' res'
      using that only_steps_no_step[OF e1(2), of Effect req' res'] b by auto
    have n3: "new_events c1 c3 = new_events c1 c2 @ [Exchange Effect (hdr req) res]"
      using e1(1) t3 by (intro new_events_append) simp
    show ?thesis
    proof (cases res)
      case (Inl err)
      with rr Inr do have f: "r = Inl (EffectDoFailed effectName err)" "c' = c3" by simp_all
      have "stage ?S c1 r c'" using cr do Inl f
        by (simp add: stage_request_failed[of E _ _ _ c1 req c2 "hdr req" Effect err] hdr)
      with upto3 n3 f show ?thesis by auto
    next
      case resp: (Inr resp)
      show ?thesis
      proof (cases "StatusCode resp = 200")
        case False
        with rr Inr do resp have f: "r = Inl (NonOKStatus (Status resp))" "c' = c3" by simp_all
        have "stage ?S c1 r c'" using cr do resp f False
          by (simp add: stage_request_status[of E _ _ _ c1 req c2 "hdr req" Effect resp] hdr)
        with upto3 n3 f show ?thesis by auto
      next
        case True
        with rr Inr do resp have g: "getResultImageWithContext E (RequestURL resp) c3 = (r, c')"
          by simp
        have "stage ?S c1 (Inr () :: error + unit) c3" using cr do resp True
          by (intro stage_request_ok[of E _ _ _ c1 req c2 "hdr req" Effect resp])
            (simp_all add: hdr)
        moreover have s4: "stage {Bootstrap, ResultPage, ImageDownload} c3 r c'"
          using g by (rule stage_getResult)
        then have "stage ?S c3 r c'"
          by (intro stage_mono[of "{Bootstrap, ResultPage, ImageDownload}" ?S]) auto
        ultimately have st: "stage ?S c1 r c'" by (rule stage_seq)
        note e4 = stage_new_events[OF s4]
        have "trace c' = trace c1 @ (new_events c1 c2 @ [Exchange Effect (hdr req) res]) @ new_events c3 c'"
          using e1(1) t3 e4(1) by simp
        then have n4: "new_events c1 c' =
           (new_events c1 c2 @ [Exchange Effect (hdr req) res]) @ new_events c3 c'"
          by (rule new_events_append)
        have "Body req' = ?b" if "Exchange Effect req' res' \<in> set (new_events c1 c')" for req' res'
        proof -
          from that n4 consider
            "Exchange Effect req' res' \<in> set (new_events c1 c2 @ [Exchange Effect (hdr req) res])"
            | "Exchange Effect req' res' \<in> set (new_events c3 c')"
            by auto
          then show ?thesis
          proof cases
            case 1
            then show ?thesis by (rule upto3)
          next
            case 2
            with only_steps_no_step[OF e4(2), of Effect req' res'] show ?thesis by auto
          qed
        qed
        with st show ?thesis by blast
      qed
    qed
  qed
  from goal show "stage ?S c1 r c'" by simp
  from goal show "\<forall>req res. Exchange Effect req res \<in> set (new_events c1 c') \<longrightarrow>
           Body req = ?b" by simp
qed

lemma applyEffect_cases:
  assumes run: "applyEffectWithContext E img effectPath params effectName c = (r, c')"
  obtains (upload_failed) e where "uploadImageWithContext E img c = (Inl e, c')" "r = Inl e"
  | (empty_key) pr where "uploadImageWithContext E img c = (Inr pr, c')"
      "Key (Response pr) = []" "r = Inl EmptyKey"
  | (continued) pr c1 where "uploadImageWithContext E img c = (Inr pr, c1)"
      "Key (Response pr) \<noteq> []"
      "stage {Bootstrap, Effect, ResultPage, ImageDownload} c1 r c'"
      "\<forall>req res. Exchange Effect req res \<in> set (new_events c1 c') \<longrightarrow>
           Body req = effect_body E params (Key (Response pr))"
proof -
  obtain ur c1 where up: "uploadImageWithContext E img c = (ur, c1)" by fastforce
  show thesis
  proof (cases ur)
    case (Inl e)
    with run up have "r = Inl e" "c' = c1" by (auto simp: applyEffectWithContext_def)
    with up Inl show thesis by (intro upload_failed[of e]) simp_all
  next
    case (Inr pr)
    show thesis
    proof (cases "Key (Response pr) = []")
      case True
      with run up Inr have "r = Inl EmptyKey" "c' = c1"
        by (auto simp: applyEffectWithContext_def Let_def)
      with up Inr True show thesis by (intro empty_key[of pr]) simp_all
    next
      case False
      from up Inr have up': "uploadImageWithContext E img c = (Inr pr, c1)" by simp
      from applyEffect_tail[OF up' False run] up' False show thesis
        by (intro continued[of pr c1]) simp_all
    qed
  qed
qed

lemma upload_shape:
  assumes run: "uploadImageWithContext E img c = (ur, c1)"
  obtains pre where
    "trace c1 = trace c @ ReadAllImage # pre @ [CloseImage]"
    "only_steps {Bootstrap, Upload} pre"
    "cookies_ok (PHPSESSID c) pre" "PHPSESSID c1 = tok_after (PHPSESSID c) pre"
    "run_shape ur pre"
    "PHPSESSID c = [] \<longrightarrow> pre = [] \<or> (\<exists>breq bres rest. pre = Exchange Bootstrap breq bres # rest)"
    "\<forall>breq bres rest. pre = Exchange Bootstrap breq bres # rest \<longrightarrow> bootstrap_token bres = None
        \<longrightarrow> ur = Inl (sess_error bres) \<and> rest = []"
    "\<forall>req ures. Exchange Upload req ures \<in> set pre \<longrightarrow> ur = upload_outcome E ures"
    "\<forall>pr. ur = Inr pr \<longrightarrow> (\<exists>req ures. Exchange Upload req ures \<in> set pre)"
    "ur \<noteq> Inl EmptyKey"
  using run
proof (cases rule: upload_cases)
  case (no_exchange e)
  show ?thesis
  proof (rule that[of "[]"])
    show "trace c1 = trace c @ ReadAllImage # [] @ [CloseImage]" using no_exchange by simp
    show "run_shape ur []" using no_exchange by (simp add: run_shape_def)
  qed (use no_exchange in \<open>simp_all add: only_steps_def\<close>)
next
  case (up_boot_failed breq bres)
  let ?B = "Exchange Bootstrap breq bres"
  show ?thesis
  proof (rule that[of "[?B]"])
    show "trace c1 = trace c @ ReadAllImage # [?B] @ [CloseImage]" using up_boot_failed by simp
    have "exchanges [?B] = [] @ [?B]" "list_all clean_ev []" "\<not> clean_ev ?B" "failure_of ?B ur"
      using up_boot_failed by (simp_all add: exchanges_def root_cause_sess_error)
    then show "run_shape ur [?B]" unfolding run_shape_def by blast
    show "ur \<noteq> Inl EmptyKey" using up_boot_failed by (cases bres) auto
  qed (use up_boot_failed in \<open>simp_all add: only_steps_def\<close>)
next
  case (sent_held ureq ures)
  let ?U = "Exchange Upload ureq ures"
  have ur: "ur = upload_outcome E ures" using sent_held by (simp add: upload_outcome_def)
  show ?thesis
  proof (rule that[of "[?U]"])
    show "trace c1 = trace c @ ReadAllImage # [?U] @ [CloseImage]" using sent_held by simp
    have "(clean_ev ?U \<and> \<not> status_failure ur) \<or>
       (exchanges [?U] = [] @ [?U] \<and> list_all clean_ev [] \<and> \<not> clean_ev ?U \<and>
        failure_of ?U ur)"
      using ur by (auto simp: exchanges_def upload_outcome_def split: sum.splits option.splits)
    then show "run_shape ur [?U]" unfolding run_shape_def by auto
    show "ur \<noteq> Inl EmptyKey" using ur
      by (auto simp: upload_outcome_def split: sum.splits option.splits)
  qed (use sent_held ur in \<open>simp_all add: only_steps_def\<close>)
next
  case (sent_boot breq bres v ureq ures)
  let ?U = "Exchange Upload ureq ures"
  let ?B = "Exchange Bootstrap breq bres"
  have ur: "ur = upload_outcome E ures" using sent_boot by (simp add: upload_outcome_def)
  show ?thesis
  proof (rule that[of "[?B, ?U]"])
    show "trace c1 = trace c @ ReadAllImage # [?B, ?U] @ [CloseImage]" using sent_boot by simp
    have "(clean_ev ?U \<and> \<not> status_failure ur) \<or>
       (exchanges [?B, ?U] = [?B] @ [?U] \<and> list_all clean_ev [?B] \<and> \<not> clean_ev ?U \<and>
        failure_of ?U ur)"
      using ur sent_boot(3)
      by (auto simp: exchanges_def upload_outcome_def split: sum.splits option.splits)
    then show "run_shape ur [?B, ?U]" unfolding run_shape_def using sent_boot(3) by auto
    show "ur \<noteq> Inl EmptyKey" using ur
      by (auto simp: upload_outcome_def split: sum.splits option.splits)
  qed (use sent_boot ur in \<open>simp_all add: only_steps_def\<close>)
qed


lemma sess_error_not_EmptyKey: "sess_error res \<noteq> EmptyKey"
  by (cases res) simp_all

lemma createRequest_not_EmptyKey:
  assumes "createRequestWithContext E method url b c = (Inl e, c')"
  shows "e \<noteq> EmptyKey"
  using assms by (cases rule: createRequest_cases) (auto simp: sess_error_not_EmptyKey)

lemma getResult_not_EmptyKey:
  assumes "getResultImageWithContext E resultURL c = (r, c')"
  shows "r \<noteq> Inl EmptyKey"
  using assms unfolding getResultImageWithContext_def Let_def
  by (auto split: prod.splits sum.splits if_splits dest: extract_Inl_cases)

lemma applyEffect_EmptyKey:
  assumes run: "applyEffectWithContext E img effectPath params effectName c = (Inl EmptyKey, c')"
  shows "\<exists>pr. uploadImageWithContext E img c = (Inr pr, c') \<and> Key (Response pr) = []"
proof -
  obtain ur c1 where up: "uploadImageWithContext E img c = (ur, c1)" by fastforce
  from up have ne: "ur \<noteq> Inl EmptyKey" by (rule upload_shape)
  from run up ne show ?thesis
    unfolding applyEffectWithContext_def Let_def
    by (auto split: prod.splits sum.splits if_splits
        dest: createRequest_not_EmptyKey getResult_not_EmptyKey)
qed

lemma applyEffect_shape:
  assumes run: "applyEffectWithContext E img effectPath params effectName c = (r, c')"
  obtains pre post where
    "new_events c c' = ReadAllImage # pre @ CloseImage # post"
    "only_steps {Bootstrap, Upload} pre"
    "only_steps {Bootstrap, Effect, ResultPage, ImageDownload} post"
    "cookies_ok (PHPSESSID c) (pre @ post)"
    "PHPSESSID c' = tok_after (PHPSESSID c) (pre @ post)"
    "run_shape r (pre @ post)"
    "PHPSESSID c = [] \<longrightarrow> pre = [] \<or> (\<exists>breq bres rest. pre = Exchange Bootstrap breq bres # rest)"
    "\<forall>breq bres rest. pre = Exchange Bootstrap breq bres # rest \<longrightarrow> bootstrap_token bres = None
        \<longrightarrow> r = Inl (sess_error bres) \<and> rest = [] \<and> post = []"
    "\<forall>req ures. Exchange Upload req ures \<in> set pre \<longrightarrow>
        (case upload_outcome E ures of
           Inl e \<Rightarrow> r = Inl e \<and> post = []
         | Inr pr \<Rightarrow>
             if Key (Response pr) = [] then r = Inl EmptyKey \<and> post = []
             else (\<forall>req res. Exchange Effect req res \<in> set post \<longrightarrow>
                     Body req = effect_body E params (Key (Response pr))))"
    "post \<noteq> [] \<longrightarrow> (\<exists>req ures. Exchange Upload req ures \<in> set pre)"
    "r = Inl EmptyKey \<longrightarrow>
       (\<exists>req ures pr. Exchange Upload req ures \<in> set pre \<and> upload_outcome E ures = Inr pr \<and>
          Key (Response pr) = [])"
proof -
  note result = that
  obtain ur c1 where up: "uploadImageWithContext E img c = (ur, c1)" by fastforce
  from up obtain pre where pre:
    "trace c1 = trace c @ ReadAllImage # pre @ [CloseImage]"
    "only_steps {Bootstrap, Upload} pre"
    "cookies_ok (PHPSESSID c) pre" "PHPSESSID c1 = tok_after (PHPSESSID c) pre"
    "run_shape ur pre"
    "PHPSESSID c = [] \<longrightarrow> pre = [] \<or> (\<exists>breq bres rest. pre = Exchange Bootstrap breq bres # rest)"
    "\<forall>breq bres rest. pre = Exchange Bootstrap breq bres # rest \<longrightarrow> bootstrap_token bres = None
        \<longrightarrow> ur = Inl (sess_error bres) \<and> rest = []"
    "\<forall>req ures. Exchange Upload req ures \<in> set pre \<longrightarrow> ur = upload_outcome E ures"
    "\<forall>pr. ur = Inr pr \<longrightarrow> (\<exists>req ures. Exchange Upload req ures \<in> set pre)"
    "ur \<noteq> Inl EmptyKey"
    by (rule upload_shape)
  have stop: thesis if "c' = c1"
    "(\<exists>e. ur = Inl e \<and> r = Inl e) \<or> (\<exists>pr. ur = Inr pr \<and> Key (Response pr) = [] \<and> r = Inl EmptyKey)"
  proof (rule result[of pre "[]"])
    show "new_events c c' = ReadAllImage # pre @ CloseImage # []"
      using pre(1) that(1) by (intro new_events_append) simp
    show "run_shape r (pre @ [])"
    proof -
      from that(2) consider e where "ur = Inl e" "r = Inl e" | pr where "ur = Inr pr"
        by blast
      then show ?thesis
      proof cases
        case 1
        with pre(5) show ?thesis using run_shape_root[of e pre e] by simp
      next
        case 2
        with pre(5) have "list_all clean_ev pre" by (simp add: run_shape_success)
        moreover from that(2) 2 have "r = Inl EmptyKey" by auto
        ultimately show ?thesis by (simp add: run_shape_clean)
      qed
    qed
    show "\<forall>breq bres rest. pre = Exchange Bootstrap breq bres # rest \<longrightarrow> bootstrap_token bres = None
        \<longrightarrow> r = Inl (sess_error bres) \<and> rest = [] \<and> [] = ([] :: event list)"
      using pre(7) that(2) by auto
    show "\<forall>req ures. Exchange Upload req ures \<in> set pre \<longrightarrow>
        (case upload_outcome E ures of
           Inl e \<Rightarrow> r = Inl e \<and> [] = ([] :: event list)
         | Inr pr \<Rightarrow>
             if Key (Response pr) = [] then r = Inl EmptyKey \<and> [] = ([] :: event list)
             else (\<forall>req res. Exchange Effect req res \<in> set [] \<longrightarrow>
                     Body req = effect_body E params (Key (Response pr))))"
    proof (intro allI impI)
      fix req ures assume "Exchange Upload req ures \<in> set pre"
      with pre(8) have o: "upload_outcome E ures = ur" by simp
      from that(2) show "(case upload_outcome E ures of
           Inl e \<Rightarrow> r = Inl e \<and> [] = ([] :: event list)
         | Inr pr \<Rightarrow>
             if Key (Response pr) = [] then r = Inl EmptyKey \<and> [] = ([] :: event list)
             else (\<forall>req res. Exchange Effect req res \<in> set [] \<longrightarrow>
                     Body req = effect_body E params (Key (Response pr))))"
        unfolding o by auto
    qed
    show "r = Inl EmptyKey \<longrightarrow>
       (\<exists>req ures pr. Exchange Upload req ures \<in> set pre \<and> upload_outcome E ures = Inr pr \<and>
          Key (Response pr) = [])"
    proof
      assume "r = Inl EmptyKey"
      with that(2) pre(10) obtain pr where pr: "ur = Inr pr" "Key (Response pr) = []" by auto
      with pre(9) obtain req ures where u: "Exchange Upload req ures \<in> set pre" by blast
      with pre(8) pr have "upload_outcome E ures = Inr pr" by simp
      with u pr show "\<exists>req ures pr. Exchange Upload req ures \<in> set pre \<and>
          upload_outcome E ures = Inr pr \<and> Key (Response pr) = []" by blast
    qed
  qed (use pre that in \<open>simp_all add: only_steps_def\<close>)
  from run show thesis
  proof (cases rule: applyEffect_cases)
    case (upload_failed e)
    with up show ?thesis by (intro stop) auto
  next
    case (empty_key pr)
    with up show ?thesis by (intro stop) auto
  next
    case (continued pr c1')
    with up have ur: "ur = Inr pr" "c1' = c1" by simp_all
    note st = continued(3)[unfolded ur(2)]
    note body = continued(4)[unfolded ur(2)]
    note e = stage_new_events[OF st]
    let ?post = "new_events c1 c'"
    from pre(5) ur have clean: "list_all clean_ev pre" by (simp add: run_shape_success)
    have ne: "r \<noteq> Inl EmptyKey"
    proof
      assume "r = Inl EmptyKey"
      with run obtain pr' where "uploadImageWithContext E img c = (Inr pr', c')"
        "Key (Response pr') = []" using applyEffect_EmptyKey by blast
      with up ur continued(2) show False by simp
    qed
    show ?thesis
    proof (rule result[of pre ?post])
      have "trace c' = trace c @ (ReadAllImage # pre @ CloseImage # ?post)"
        using pre(1) e(1) by simp
      then show "new_events c c' = ReadAllImage # pre @ CloseImage # ?post"
        by (rule new_events_append)
      show "only_steps {Bootstrap, Upload} pre" by fact
      show "only_steps {Bootstrap, Effect, ResultPage, ImageDownload} ?post" by fact
      show "cookies_ok (PHPSESSID c) (pre @ ?post)"
        using pre(3,4) e(3) by (simp add: cookies_ok_append)
      show "PHPSESSID c' = tok_after (PHPSESSID c) (pre @ ?post)"
        using pre(4) e(4) by (simp add: tok_after_append)
      show "run_shape r (pre @ ?post)" using clean e(5) by (rule run_shape_append)
      show "PHPSESSID c = [] \<longrightarrow> pre = [] \<or> (\<exists>breq bres rest. pre = Exchange Bootstrap breq bres # rest)"
        by fact
      show "\<forall>breq bres rest. pre = Exchange Bootstrap breq bres # rest \<longrightarrow> bootstrap_token bres = None
        \<longrightarrow> r = Inl (sess_error bres) \<and> rest = [] \<and> ?post = []"
        using pre(7) ur by auto
      show "\<forall>req ures. Exchange Upload req ures \<in> set pre \<longrightarrow>
        (case upload_outcome E ures of
           Inl e \<Rightarrow> r = Inl e \<and> ?post = []
         | Inr pr \<Rightarrow>
             if Key (Response pr) = [] then r = Inl EmptyKey \<and> ?post = []
             else (\<forall>req res. Exchange Effect req res \<in> set ?post \<longrightarrow>
                     Body req = effect_body E params (Key (Response pr))))"
      proof (intro allI impI)
        fix req ures assume "Exchange Upload req ures \<in> set pre"
        with pre(8) ur have "upload_outcome E ures = Inr pr" by simp
        with continued(2) body show "(case upload_outcome E ures of
           Inl e \<Rightarrow> r = Inl e \<and> ?post = []
         | Inr pr \<Rightarrow>
             if Key (Response pr) = [] then r = Inl EmptyKey \<and> ?post = []
             else (\<forall>req res. Exchange Effect req res \<in> set ?post \<longrightarrow>
                     Body req = effect_body E params (Key (Response pr))))"
          by simp
      qed
      show "?post \<noteq> [] \<longrightarrow> (\<exists>req ures. Exchange Upload req ures \<in> set pre)"
        using pre(9) ur by simp
      show "r = Inl EmptyKey \<longrightarrow>
       (\<exists>req ures pr. Exchange Upload req ures \<in> set pre \<and> upload_outcome E ures = Inr pr \<and>
          Key (Response pr) = [])"
        using ne by simp
    qed
  qed
qed

lemma unclean_is_exchange: "\<not> clean_ev x \<Longrightarrow> is_exchange x"
  by (cases x) simp_all

lemma run_shape_unclean:
  assumes "run_shape r evs" and "x \<in> set evs" and "\<not> clean_ev x"
  shows "failure_of x r" and "\<exists>pre. exchanges evs = pre @ [x]"
proof -
  from assms(2,3) have "\<not> list_all clean_ev evs" by (auto simp: list_all_iff)
  with assms(1) obtain pre y where p: "exchanges evs = pre @ [y]" "list_all clean_ev pre"
    "\<not> clean_ev y" "failure_of y r"
    unfolding run_shape_def by blast
  from assms(2,3) have "x \<in> set (exchanges evs)"
    by (simp add: exchanges_def unclean_is_exchange)
  with p(1,2) assms(3) have "x = y" by (auto simp: list_all_iff)
  with p show "failure_of x r" "\<exists>pre. exchanges evs = pre @ [x]" by auto
qed

lemma exchanges_only_steps: "only_steps S evs \<Longrightarrow> exchanges evs = evs"
proof (induction evs)
  case Nil
  then show ?case by (simp add: exchanges_def)
next
  case (Cons e evs)
  then show ?case by (cases e) (auto simp: exchanges_def only_steps_def)
qed

lemma exchanges_shape:
  assumes "only_steps S pre" and "only_steps S' post"
  shows "exchanges (ReadAllImage # pre @ CloseImage # post) = pre @ post"
  using assms[THEN exchanges_only_steps] by (simp add: exchanges_def)

lemma no_step_filter:
  assumes "only_steps S evs" and "st \<notin> S"
  shows "filter (is_step st) evs = []"
proof -
  have "\<not> is_step st e" if "e \<in> set evs" for e
  proof -
    from assms(1) that obtain st' where "st' \<in> S" "is_step st' e"
      unfolding only_steps_def by blast
    with assms(2) show ?thesis by (cases e) auto
  qed
  then show ?thesis by (simp add: filter_empty_conv)
qed

lemma run_shape_status_failure:
  assumes "run_shape (Inl e :: error + 'a) evs" and "is_status_error (root_cause e)"
  shows "\<exists>pre st req resp. exchanges evs = pre @ [Exchange st req (Inr resp)] \<and>
           StatusCode resp \<noteq> 200 \<and> root_cause e = status_error st (Status resp)"
proof -
  from assms obtain pre x where p: "exchanges evs = pre @ [x]" "\<not> clean_ev x"
    "failure_of x (Inl e :: error + 'a)"
    unfolding run_shape_def by auto
  from p(2) obtain st req res where x: "x = Exchange st req res" by (cases x) simp_all
  have "\<exists>resp. res = Inr resp \<and> StatusCode resp \<noteq> 200 \<and>
          root_cause e = status_error st (Status resp)"
  proof (cases res)
    case (Inl err)
    with p(3) x assms(2) show ?thesis by (auto split: if_splits)
  next
    case (Inr resp)
    with p(2,3) x assms(2) show ?thesis by (cases st) (auto split: if_splits)
  qed
  with p(1) x show ?thesis by blast
qed

text \<open>
  Claim C6. If the response to the upload POST has a status other than 200 (500, say),
  the effect operation fails with the non-OK-status error of the upload, that exchange
  is the last request of the call, and no request is issued to the effect-invocation
  endpoint, for the result page or for the image.
\<close>

theorem upload_status_stops:
  assumes "applyEffectWithContext E img effectPath params effectName c = (r, c')"
    and "Exchange Upload req (Inr resp) \<in> set (new_events c c')"
    and "StatusCode resp \<noteq> 200"
  shows "r = Inl (NonOKStatus (Status resp)) \<and>
         last (exchanges (new_events c c')) = Exchange Upload req (Inr resp) \<and>
         filter (is_step Effect) (new_events c c') = [] \<and>
         filter (is_step ResultPage) (new_events c c') = [] \<and>
         filter (is_step ImageDownload) (new_events c c') = []"
  using assms(1)
proof (cases rule: applyEffect_shape)
  case (1 pre post)
  let ?U = "Exchange Upload req (Inr resp)"
  have "?U \<notin> set post" using only_steps_no_step[OF 1(3), of Upload req "Inr resp"] by auto
  with assms(2) 1(1) have inpre: "?U \<in> set pre" by auto
  have out: "upload_outcome E (Inr resp) = Inl (NonOKStatus (Status resp))"
    using assms(3) by (simp add: upload_outcome_def)
  from 1(9)[rule_format, OF inpre] out
  have r: "r = Inl (NonOKStatus (Status resp))" and post: "post = []"
    by simp_all
  have ex: "exchanges (new_events c c') = pre"
    using exchanges_shape[OF 1(2,3)] 1(1) post by simp
  have "\<not> clean_ev ?U" using assms(3) by simp
  with 1(6) inpre post obtain pre' where "exchanges pre = pre' @ [?U]"
    using run_shape_unclean(2)[of r pre ?U] by auto
  then have "pre = pre' @ [?U]" using exchanges_only_steps[OF 1(2)] by simp
  with ex have l: "last (exchanges (new_events c c')) = ?U" by simp
  have f: "filter (is_step st) (new_events c c') = []"
    if "st \<notin> {Bootstrap, Upload}" for st
    using no_step_filter[OF 1(2) that] 1(1) post by simp
  from r l f[of Effect] f[of ResultPage] f[of ImageDownload] show ?thesis by simp
qed

theorem upload_status_stops_witness:
  "Exchange Upload
      (request_of (new_events new_client (snd (demo_fatify [(''PHPSESSID'', ''abc'')] 500 [])) ! 2))
      (Inr (projr (outcome_of
         (new_events new_client (snd (demo_fatify [(''PHPSESSID'', ''abc'')] 500 [])) ! 2))))
     \<in> set (new_events new_client (snd (demo_fatify [(''PHPSESSID'', ''abc'')] 500 []))) \<and>
   StatusCode (projr (outcome_of
         (new_events new_client (snd (demo_fatify [(''PHPSESSID'', ''abc'')] 500 [])) ! 2))) = 500 \<and>
   fst (demo_fatify [(''PHPSESSID'', ''abc'')] 500 []) = Inl (NonOKStatus ''Error'') \<and>
   filter (is_step Effect)
     (new_events new_client (snd (demo_fatify [(''PHPSESSID'', ''abc'')] 500 []))) = []"
proof -
  define run where "run = demo_fatify [(''PHPSESSID'', ''abc'')] 500 []"
  define ev where "ev = new_events new_client (snd run) ! 2"
  let ?req = "request_of ev" and ?resp = "projr (outcome_of ev)"
  have run: "applyEffectWithContext (demo_env [(''PHPSESSID'', ''abc'')] 500 []) demo_image
      ''faces/fat_maker''
      (map_set ''size'' ''XXXXXL''
         (map_set ''image:crop'' ''0.0.961.1093''
          (map_set ''current-category'' ''faces'' []))) ''fatify'' new_client = (fst run, snd run)"
    by (simp add: run_def demo_fatify_def FatifyWithContext_def)
  have mem: "Exchange Upload ?req (Inr ?resp) \<in> set (new_events new_client (snd run))"
    unfolding ev_def run_def by code_simp
  have code: "StatusCode ?resp = 500" unfolding ev_def run_def by code_simp
  have st: "Status ?resp = ''Error''" unfolding ev_def run_def by code_simp
  from code have ne: "StatusCode ?resp \<noteq> 200" by simp
  from upload_status_stops[OF run mem ne] mem code st
  show ?thesis unfolding run_def ev_def by simp
qed

text \<open>
  Claim C10. Every HTTP step (session bootstrap, upload, effect invocation, result-page
  fetch, image download) accepts the status code 200 only. An exchange of any step whose
  response has another status, 201 and 204 included, is the last exchange of the call,
  and the call fails with the non-OK-status error of that step (inside the wrapping
  error of the request construction when a bootstrap is triggered for the result page or
  the image). Conversely a call fails with a non-OK-status error only when its last
  exchange has a response whose status is not 200, and the error is that of its step.
\<close>

theorem only_200_is_success:
  assumes "applyEffectWithContext E img effectPath params effectName c = (r, c')"
  shows "(\<forall>st req resp.
            Exchange st req (Inr resp) \<in> set (new_events c c') \<and> StatusCode resp \<noteq> 200 \<longrightarrow>
            (\<exists>e. r = Inl e \<and> root_cause e = status_error st (Status resp)) \<and>
            last (exchanges (new_events c c')) = Exchange st req (Inr resp)) \<and>
         (\<forall>e. r = Inl e \<and> is_status_error (root_cause e) \<longrightarrow>
            (\<exists>pre st req resp.
               exchanges (new_events c c') = pre @ [Exchange st req (Inr resp)] \<and>
               StatusCode resp \<noteq> 200 \<and> root_cause e = status_error st (Status resp)))"
  using assms(1)
proof (cases rule: applyEffect_shape)
  case (1 pre post)
  have ex: "exchanges (new_events c c') = pre @ post"
    using exchanges_shape[OF 1(2,3)] 1(1) by simp
  have ex2: "exchanges (pre @ post) = pre @ post"
    using exchanges_only_steps[OF 1(2)] exchanges_only_steps[OF 1(3)]
    by (simp add: exchanges_append)
  have fwd: "(\<exists>e. r = Inl e \<and> root_cause e = status_error st (Status resp)) \<and>
            last (exchanges (new_events c c')) = Exchange st req (Inr resp)"
    if "Exchange st req (Inr resp) \<in> set (new_events c c')" "StatusCode resp \<noteq> 200"
    for st req resp
  proof -
    let ?X = "Exchange st req (Inr resp)"
    from that(1) 1(1) have mem: "?X \<in> set (pre @ post)" by auto
    have unclean: "\<not> clean_ev ?X" using that(2) by simp
    from run_shape_unclean(2)[OF 1(6) mem unclean] ex ex2
    have l: "last (exchanges (new_events c c')) = ?X" by auto
    from run_shape_unclean(1)[OF 1(6) mem unclean] that(2)
    have "\<exists>e. r = Inl e \<and> root_cause e = status_error st (Status resp)"
      by (cases st) simp_all
    with l show ?thesis by simp
  qed
  have bwd: "\<exists>pre st req resp.
               exchanges (new_events c c') = pre @ [Exchange st req (Inr resp)] \<and>
               StatusCode resp \<noteq> 200 \<and> root_cause e = status_error st (Status resp)"
    if "r = Inl e" "is_status_error (root_cause e)" for e
    using run_shape_status_failure[of e "pre @ post"] 1(6) that ex ex2 by simp
  from fwd bwd show ?thesis by blast
qed

theorem only_200_is_success_witness:
  "Exchange Upload
      (request_of (new_events new_client (snd (demo_fatify [(''PHPSESSID'', ''abc'')] 201 [])) ! 2))
      (Inr (projr (outcome_of
         (new_events new_client (snd (demo_fatify [(''PHPSESSID'', ''abc'')] 201 [])) ! 2))))
     \<in> set (new_events new_client (snd (demo_fatify [(''PHPSESSID'', ''abc'')] 201 []))) \<and>
   StatusCode (projr (outcome_of
         (new_events new_client (snd (demo_fatify [(''PHPSESSID'', ''abc'')] 201 [])) ! 2))) = 201 \<and>
   (\<exists>e. fst (demo_fatify [(''PHPSESSID'', ''abc'')] 201 []) = Inl e \<and>
        root_cause e = NonOKStatus ''Error'')"
proof -
  define run where "run = demo_fatify [(''PHPSESSID'', ''abc'')] 201 []"
  define ev where "ev = new_events new_client (snd run) ! 2"
  let ?req = "request_of ev" and ?resp = "projr (outcome_of ev)"
  have run: "applyEffectWithContext (demo_env [(''PHPSESSID'', ''abc'')] 201 []) demo_image
      ''faces/fat_maker''
      (map_set ''size'' ''XXXXXL''
         (map_set ''image:crop'' ''0.0.961.1093''
          (map_set ''current-category'' ''faces'' []))) ''fatify'' new_client = (fst run, snd run)"
    by (simp add: run_def demo_fatify_def FatifyWithContext_def)
  have mem: "Exchange Upload ?req (Inr ?resp) \<in> set (new_events new_client (snd run))"
    unfolding ev_def run_def by code_simp
  have code: "StatusCode ?resp = 201" unfolding ev_def run_def by code_simp
  have st: "Status ?resp = ''Error''" unfolding ev_def run_def by code_simp
  from code have ne: "StatusCode ?resp \<noteq> 200" by simp
  from only_200_is_success[OF run, THEN conjunct1, rule_format, of Upload ?req ?resp] mem ne
  have "\<exists>e. fst run = Inl e \<and> root_cause e = status_error Upload (Status ?resp)" by simp
  with mem code st show ?thesis unfolding run_def ev_def by simp
qed

lemma upload_empty_key:
  assumes "applyEffectWithContext E img effectPath params effectName c = (r, c')"
    and "Exchange Upload req (Inr resp) \<in> set (new_events c c')"
    and "StatusCode resp = 200" and "json_Decode E (RespBody resp) = Some pr"
    and "Key (Response pr) = []"
  shows "r = Inl EmptyKey \<and> filter (is_step Effect) (new_events c c') = []"
  using assms(1)
proof (cases rule: applyEffect_shape)
  case (1 pre post)
  have inpre: "Exchange Upload req (Inr resp) \<in> set pre"
    using assms(2) 1(1) only_steps_no_step[OF 1(3), of Upload req "Inr resp"] by auto
  from assms(3,4) have "upload_outcome E (Inr resp) = Inr pr" by (simp add: upload_outcome_def)
  with 1(9)[rule_format, OF inpre] assms(5)
  have "r = Inl EmptyKey" "post = []" by simp_all
  moreover have "filter (is_step Effect) pre = []" using no_step_filter[OF 1(2)] by simp
  ultimately show ?thesis using 1(1) by simp
qed

text \<open>
  Claim C5. When the upload response has status 200 and decodes, and its key is the empty
  string, the effect operation fails with \<open>EmptyKey\<close> and no effect-invocation request
  is issued. \<open>EmptyKey\<close> is returned in that case only, so never for a response that
  fails to decode: such a response gives \<open>DecodeFailed\<close>.
\<close>

theorem empty_key_error:
  assumes "applyEffectWithContext E img effectPath params effectName c = (r, c')"
  shows "(\<forall>req resp pr. Exchange Upload req (Inr resp) \<in> set (new_events c c') \<and>
            StatusCode resp = 200 \<and> json_Decode E (RespBody resp) = Some pr \<and>
            Key (Response pr) = [] \<longrightarrow>
            r = Inl EmptyKey \<and> filter (is_step Effect) (new_events c c') = []) \<and>
         (r = Inl EmptyKey \<longrightarrow>
            (\<exists>req resp pr. Exchange Upload req (Inr resp) \<in> set (new_events c c') \<and>
               StatusCode resp = 200 \<and> json_Decode E (RespBody resp) = Some pr \<and>
               Key (Response pr) = [])) \<and>
         (\<forall>req resp. Exchange Upload req (Inr resp) \<in> set (new_events c c') \<and>
            StatusCode resp = 200 \<and> json_Decode E (RespBody resp) = None \<longrightarrow>
            r = Inl DecodeFailed)"
  using assms(1)
proof (cases rule: applyEffect_shape)
  case (1 pre post)
  have inpre: "Exchange Upload req ures \<in> set pre"
    if "Exchange Upload req ures \<in> set (new_events c c')" for req ures
    using that 1(1) only_steps_no_step[OF 1(3), of Upload req ures] by auto
  have a: "r = Inl EmptyKey \<and> filter (is_step Effect) (new_events c c') = []"
    if "Exchange Upload req (Inr resp) \<in> set (new_events c c')" "StatusCode resp = 200"
      "json_Decode E (RespBody resp) = Some pr" "Key (Response pr) = []" for req resp pr
    using upload_empty_key[OF assms that] .
  have b: "\<exists>req resp pr. Exchange Upload req (Inr resp) \<in> set (new_events c c') \<and>
               StatusCode resp = 200 \<and> json_Decode E (RespBody resp) = Some pr \<and>
               Key (Response pr) = []" if "r = Inl EmptyKey"
  proof -
    from 1(11) that obtain req ures pr where u: "Exchange Upload req ures \<in> set pre"
      "upload_outcome E ures = Inr pr" "Key (Response pr) = []" by blast
    from u(2) obtain resp where "ures = Inr resp" "StatusCode resp = 200"
      "json_Decode E (RespBody resp) = Some pr"
      by (auto simp: upload_outcome_def split: sum.splits if_splits option.splits)
    with u 1(1) show ?thesis by auto
  qed
  have d: "r = Inl DecodeFailed"
    if "Exchange Upload req (Inr resp) \<in> set (new_events c c')" "StatusCode resp = 200"
      "json_Decode E (RespBody resp) = None" for req resp
  proof -
    from that have "upload_outcome E (Inr resp) = Inl DecodeFailed"
      by (simp add: upload_outcome_def)
    with 1(9)[rule_format, OF inpre[OF that(1)]] show ?thesis by simp
  qed
  from a b d show ?thesis by blast
qed


theorem empty_key_error_witness:
  \<open>Exchange Upload
      (request_of (new_events new_client
         (snd (demo_fatify [(''PHPSESSID'', ''abc'')] 200 ''{"response":{"key":""}}'')) ! 2))
      (Inr (projr (outcome_of (new_events new_client
         (snd (demo_fatify [(''PHPSESSID'', ''abc'')] 200 ''{"response":{"key":""}}'')) ! 2))))
     \<in> set (new_events new_client
         (snd (demo_fatify [(''PHPSESSID'', ''abc'')] 200 ''{"response":{"key":""}}''))) \<and>
   StatusCode (projr (outcome_of (new_events new_client
         (snd (demo_fatify [(''PHPSESSID'', ''abc'')] 200 ''{"response":{"key":""}}'')) ! 2))) = 200 \<and>
   Key (Response (the (json_Decode
      (demo_env [(''PHPSESSID'', ''abc'')] 200 ''{"response":{"key":""}}'')
      (RespBody (projr (outcome_of (new_events new_client
         (snd (demo_fatify [(''PHPSESSID'', ''abc'')] 200 ''{"response":{"key":""}}'')) ! 2))))))) = [] \<and>
   fst (demo_fatify [(''PHPSESSID'', ''abc'')] 200 ''{"response":{"key":""}}'') = Inl EmptyKey \<and>
   filter (is_step Effect) (new_events new_client
         (snd (demo_fatify [(''PHPSESSID'', ''abc'')] 200 ''{"response":{"key":""}}''))) = []\<close>
proof -
  define E where \<open>E = demo_env [(''PHPSESSID'', ''abc'')] 200 ''{"response":{"key":""}}''\<close>
  define run where \<open>run = demo_fatify [(''PHPSESSID'', ''abc'')] 200 ''{"response":{"key":""}}''\<close>
  define ev where "ev = new_events new_client (snd run) ! 2"
  let ?req = "request_of ev" and ?resp = "projr (outcome_of ev)"
  let ?pr = "the (json_Decode E (RespBody ?resp))"
  have run: "applyEffectWithContext E demo_image
      ''faces/fat_maker''
      (map_set ''size'' ''XXXXXL''
         (map_set ''image:crop'' ''0.0.961.1093''
          (map_set ''current-category'' ''faces'' []))) ''fatify'' new_client = (fst run, snd run)"
    by (simp add: run_def E_def demo_fatify_def FatifyWithContext_def)
  have mem: "Exchange Upload ?req (Inr ?resp) \<in> set (new_events new_client (snd run))"
    unfolding ev_def run_def by code_simp
  have code: "StatusCode ?resp = 200" unfolding ev_def run_def by code_simp
  have dec: "json_Decode E (RespBody ?resp) = Some ?pr" unfolding ev_def run_def E_def by code_simp
  have key: "Key (Response ?pr) = []" unfolding ev_def run_def E_def by code_simp
  from empty_key_error[OF run, THEN conjunct1, rule_format, of ?req ?resp ?pr] mem code dec key
  show ?thesis unfolding run_def ev_def E_def by simp
qed

lemma bootstrap_token_None: "bootstrap_token bres = None \<longleftrightarrow> bootstrap_failed bres"
  by (cases bres) (auto simp: map_of_eq_None_iff)

lemma cookies_ok_held:
  assumes "tok \<noteq> []" and "cookies_ok tok evs"
  shows "(\<forall>e\<in>set (exchanges evs). carries tok e) \<and> tok_after tok evs = tok"
  using assms(2)
proof (induction evs)
  case Nil
  then show ?case by (simp add: exchanges_def)
next
  case (Cons e evs)
  then show ?case using assms(1) by (cases e) (auto simp: exchanges_def split: if_splits)
qed

text \<open>
  Claim C8, as amended. Take an execution whose first session bootstrap, the one that
  the construction of the upload request triggers, gets a failure for its response: the
  HTTP call errors, or the status is not 200, or the response has no cookie named
  \<^verbatim>\<open>PHPSESSID\<close>. Then the effect operation fails with the session error of that cause,
  this bootstrap is the only request of the execution, and the upload POST is never
  issued.
\<close>

theorem first_bootstrap_failure_stops:
  assumes "applyEffectWithContext E img effectPath params effectName c = (r, c')"
    and "filter (is_step Bootstrap) (new_events c c') = Exchange Bootstrap breq bres # later"
    and "bootstrap_failed bres"
  shows "r = Inl (sess_error bres) \<and>
         exchanges (new_events c c') = [Exchange Bootstrap breq bres] \<and>
         filter (is_step Upload) (new_events c c') = []"
  using assms(1)
proof (cases rule: applyEffect_shape)
  case (1 pre post)
  let ?B = "Exchange Bootstrap breq bres"
  have ex: "exchanges (new_events c c') = pre @ post"
    using exchanges_shape[OF 1(2,3)] 1(1) by simp
  have ex2: "exchanges (pre @ post) = pre @ post"
    using exchanges_only_steps[OF 1(2)] exchanges_only_steps[OF 1(3)]
    by (simp add: exchanges_append)
  have "?B \<in> set (filter (is_step Bootstrap) (new_events c c'))"
    using assms(2) by simp
  then have "?B \<in> set (new_events c c')" by simp
  with 1(1) have mem: "?B \<in> set (pre @ post)" by auto
  have fresh: "PHPSESSID c = []"
  proof (rule ccontr)
    assume "PHPSESSID c \<noteq> []"
    from cookies_ok_held[OF this 1(4)] ex2
    have "\<forall>e\<in>set (pre @ post). carries (PHPSESSID c) e" by simp
    with mem have "carries (PHPSESSID c) ?B" by blast
    then show False by simp
  qed
  have "pre \<noteq> []"
  proof
    assume "pre = []"
    with 1(10) have "post = []" by auto
    with \<open>pre = []\<close> mem show False by simp
  qed
  with 1(7) fresh obtain breq0 bres0 rest where
    p: "pre = Exchange Bootstrap breq0 bres0 # rest" by blast
  with 1(1) have "filter (is_step Bootstrap) (new_events c c') =
      Exchange Bootstrap breq0 bres0 # filter (is_step Bootstrap) (rest @ CloseImage # post)"
    by simp
  with assms(2) have same: "breq = breq0" "bres = bres0" by simp_all
  from assms(3) same have "bootstrap_token bres0 = None" by (simp add: bootstrap_token_None)
  from 1(8)[rule_format, OF p this]
  have r: "r = Inl (sess_error bres0)" "rest = []" "post = []" by simp_all
  with same p ex 1(1) show ?thesis by simp
qed

theorem first_bootstrap_failure_stops_witness:
  "filter (is_step Bootstrap)
     (new_events new_client (snd (demo_fatify [(''other'', ''x'')] 200 []))) =
     [Exchange Bootstrap
        (request_of (new_events new_client (snd (demo_fatify [(''other'', ''x'')] 200 [])) ! 1))
        (Inr (projr (outcome_of
           (new_events new_client (snd (demo_fatify [(''other'', ''x'')] 200 [])) ! 1))))] \<and>
   bootstrap_failed (Inr (projr (outcome_of
     (new_events new_client (snd (demo_fatify [(''other'', ''x'')] 200 [])) ! 1)))) \<and>
   fst (demo_fatify [(''other'', ''x'')] 200 []) = Inl SessCookieNotFound \<and>
   exchanges (new_events new_client (snd (demo_fatify [(''other'', ''x'')] 200 []))) =
     [Exchange Bootstrap
        (request_of (new_events new_client (snd (demo_fatify [(''other'', ''x'')] 200 [])) ! 1))
        (Inr (projr (outcome_of
           (new_events new_client (snd (demo_fatify [(''other'', ''x'')] 200 [])) ! 1))))] \<and>
   filter (is_step Upload) (new_events new_client (snd (demo_fatify [(''other'', ''x'')] 200 [])))
     = []"
proof -
  define run where "run = demo_fatify [(''other'', ''x'')] 200 []"
  define ev where "ev = new_events new_client (snd run) ! 1"
  let ?req = "request_of ev" and ?resp = "projr (outcome_of ev)"
  have run: "applyEffectWithContext (demo_env [(''other'', ''x'')] 200 []) demo_image
      ''faces/fat_maker''
      (map_set ''size'' ''XXXXXL''
         (map_set ''image:crop'' ''0.0.961.1093''
          (map_set ''current-category'' ''faces'' []))) ''fatify'' new_client = (fst run, snd run)"
    by (simp add: run_def demo_fatify_def FatifyWithContext_def)
  have first: "filter (is_step Bootstrap) (new_events new_client (snd run)) =
      Exchange Bootstrap ?req (Inr ?resp) # []"
    unfolding ev_def run_def by code_simp
  have failed: "bootstrap_failed (Inr ?resp)" unfolding ev_def run_def by code_simp
  have err: "sess_error (Inr ?resp) = SessCookieNotFound" unfolding ev_def run_def by code_simp
  from first_bootstrap_failure_stops[OF run first failed] err first failed
  show ?thesis unfolding run_def ev_def by simp
qed

text \<open>
  Claim C8 as it is written speaks of any session-bootstrap response. A client whose
  first bootstrap stores an empty token bootstraps again for the effect request, after
  the upload. Against a server whose first bootstrap sets \<^verbatim>\<open>PHPSESSID\<close> to the empty
  string and whose second sets no cookie, the execution is: read, bootstrap, upload POST,
  close, bootstrap. The response of the second bootstrap has no \<^verbatim>\<open>PHPSESSID\<close> cookie and
  the operation fails with the session error, yet the upload POST has been issued.
\<close>

theorem bootstrap_failure_after_upload_counterexample:
  "PHPSESSID new_client = [] \<and>
   length (new_events new_client (snd lapsing_fatify)) = 5 \<and>
   new_events new_client (snd lapsing_fatify) ! 0 = ReadAllImage \<and>
   is_step Bootstrap (new_events new_client (snd lapsing_fatify) ! 1) \<and>
   is_step Upload (new_events new_client (snd lapsing_fatify) ! 2) \<and>
   is_close (new_events new_client (snd lapsing_fatify) ! 3) \<and>
   is_step Bootstrap (new_events new_client (snd lapsing_fatify) ! 4) \<and>
   StatusCode (projr (outcome_of (new_events new_client (snd lapsing_fatify) ! 4))) = 200 \<and>
   Cookies (projr (outcome_of (new_events new_client (snd lapsing_fatify) ! 4))) = [] \<and>
   bootstrap_failed (outcome_of (new_events new_client (snd lapsing_fatify) ! 4)) \<and>
   fst lapsing_fatify = Inl SessCookieNotFound \<and>
   length (filter (is_step Upload) (new_events new_client (snd lapsing_fatify))) = 1"
  by code_simp

text \<open>
  Claim C2, as amended. While a token is held, \<^verbatim>\<open>generateSessIDWithContext\<close> issues no
  request during a pipeline operation (there is no session bootstrap), the token is kept,
  and it is sent in the \<^verbatim>\<open>Cookie\<close> header of every request. While none is held, the first
  request of an operation, if there is one, is a session bootstrap; when its response has
  status 200 and the value of its first cookie named \<^verbatim>\<open>PHPSESSID\<close> is not empty, that
  value is the token held afterwards, no second bootstrap is issued, and every later
  request of the call carries it. The first half then applies to every later call on the
  client.
\<close>

theorem session_token_reuse:
  assumes "applyEffectWithContext E img effectPath params effectName c = (r, c')"
  shows "(PHPSESSID c \<noteq> [] \<longrightarrow>
            PHPSESSID c' = PHPSESSID c \<and>
            (\<forall>e\<in>set (exchanges (new_events c c')). carries (PHPSESSID c) e)) \<and>
         (PHPSESSID c = [] \<longrightarrow>
            exchanges (new_events c c') = [] \<or>
            (\<exists>breq bres rest.
               exchanges (new_events c c') = Exchange Bootstrap breq bres # rest \<and>
               (\<forall>v. bootstrap_token bres = Some v \<and> v \<noteq> [] \<longrightarrow>
                  PHPSESSID c' = v \<and> (\<forall>e\<in>set rest. carries v e))))"
  using assms(1)
proof (cases rule: applyEffect_shape)
  case (1 pre post)
  have ex: "exchanges (new_events c c') = pre @ post"
    using exchanges_shape[OF 1(2,3)] 1(1) by simp
  have ex2: "exchanges (pre @ post) = pre @ post"
    using exchanges_only_steps[OF 1(2)] exchanges_only_steps[OF 1(3)]
    by (simp add: exchanges_append)
  have held: "PHPSESSID c' = PHPSESSID c \<and>
            (\<forall>e\<in>set (exchanges (new_events c c')). carries (PHPSESSID c) e)"
    if "PHPSESSID c \<noteq> []"
    using cookies_ok_held[OF that 1(4)] 1(5) ex ex2 by simp
  have fresh: "exchanges (new_events c c') = [] \<or>
            (\<exists>breq bres rest.
               exchanges (new_events c c') = Exchange Bootstrap breq bres # rest \<and>
               (\<forall>v. bootstrap_token bres = Some v \<and> v \<noteq> [] \<longrightarrow>
                  PHPSESSID c' = v \<and> (\<forall>e\<in>set rest. carries v e)))"
    if "PHPSESSID c = []"
  proof (cases pre)
    case Nil
    with 1(10) have "post = []" by auto
    with Nil ex show ?thesis by simp
  next
    case (Cons x xs)
    with 1(7) that obtain breq bres where x: "x = Exchange Bootstrap breq bres" by auto
    have "PHPSESSID c' = v \<and> (\<forall>e\<in>set (xs @ post). carries v e)"
      if v: "bootstrap_token bres = Some v" "v \<noteq> []" for v
    proof -
      from 1(4) Cons x v \<open>PHPSESSID c = []\<close> have ok: "cookies_ok v (xs @ post)" by simp
      from 1(5) Cons x v \<open>PHPSESSID c = []\<close> have t: "PHPSESSID c' = tok_after v (xs @ post)"
        by simp
      have "exchanges (xs @ post) = xs @ post"
        using ex2 Cons x by (simp add: exchanges_def)
      with cookies_ok_held[OF v(2) ok] t show ?thesis by simp
    qed
    with ex Cons x show ?thesis by auto
  qed
  from held fresh show ?thesis by blast
qed

theorem session_token_reuse_witness:
  \<open>PHPSESSID new_client = [] \<and>
   exchanges (new_events new_client (snd (demo_clownify True))) =
     Exchange Bootstrap
       (request_of (new_events new_client (snd (demo_clownify True)) ! 1))
       (outcome_of (new_events new_client (snd (demo_clownify True)) ! 1))
     # tl (exchanges (new_events new_client (snd (demo_clownify True)))) \<and>
   bootstrap_token (outcome_of (new_events new_client (snd (demo_clownify True)) ! 1))
     = Some ''test-session-id'' \<and>
   PHPSESSID (snd (demo_clownify True)) = ''test-session-id'' \<and>
   list_all (carries ''test-session-id'')
     (tl (exchanges (new_events new_client (snd (demo_clownify True))))) \<and>
   length (tl (exchanges (new_events new_client (snd (demo_clownify True))))) = 4 \<and>
   PHPSESSID (snd (demo_second_call True)) = PHPSESSID (snd (demo_clownify True)) \<and>
   list_all (carries ''test-session-id'')
     (exchanges (new_events (snd (demo_clownify True)) (snd (demo_second_call True))))\<close>
proof -
  define E where \<open>E = demo_env [(''PHPSESSID'', ''test-session-id'')] 200 ''{"response":{"key":"abc123"}}''\<close>
  define run where "run = demo_clownify True"
  define ev where "ev = new_events new_client (snd run) ! 1"
  define rest where "rest = tl (exchanges (new_events new_client (snd run)))"
  have run: "applyEffectWithContext E demo_image ''all_effects/clown''
      (map_set ''hat'' ''on'' (map_set ''image:crop'' ''0.0.961.1093''
         (map_set ''current-category'' ''all_effects'' []))) ''clownify'' new_client
      = (fst run, snd run)"
    by (simp add: run_def E_def demo_clownify_def ClownifyWithContext_def)
  have fresh: "PHPSESSID new_client = []" by (simp add: new_client_def)
  have ex: "exchanges (new_events new_client (snd run)) =
      Exchange Bootstrap (request_of ev) (outcome_of ev) # rest"
    unfolding ev_def run_def rest_def by code_simp
  have tok: "bootstrap_token (outcome_of ev) = Some ''test-session-id''"
    unfolding ev_def run_def by code_simp
  have len: "length rest = 4" unfolding rest_def run_def by code_simp
  from session_token_reuse[OF run, THEN conjunct2, rule_format, OF fresh] ex
  obtain breq bres rest' where
    1: "Exchange Bootstrap (request_of ev) (outcome_of ev) # rest = Exchange Bootstrap breq bres # rest'"
    and 2: "\<forall>v. bootstrap_token bres = Some v \<and> v \<noteq> [] \<longrightarrow>
                  PHPSESSID (snd run) = v \<and> (\<forall>e\<in>set rest'. carries v e)"
    by auto
  from 1 have "bres = outcome_of ev" "rest' = rest" by simp_all
  with 2 tok have "PHPSESSID (snd run) = ''test-session-id'' \<and>
      (\<forall>e\<in>set rest. carries ''test-session-id'' e)" by simp
  then have first: "PHPSESSID (snd run) = ''test-session-id''"
    "\<forall>e\<in>set rest. carries ''test-session-id'' e" by simp_all
  define run2 where "run2 = demo_second_call True"
  have run2: "applyEffectWithContext E demo_image ''faces/fat_maker''
      (map_set ''size'' ''XXXXXL''
         (map_set ''image:crop'' ''0.0.961.1093''
          (map_set ''current-category'' ''faces'' []))) ''fatify'' (snd run)
      = (fst run2, snd run2)"
    by (simp add: run2_def run_def E_def demo_second_call_def FatifyWithContext_def)
  from first(1) have held: "PHPSESSID (snd run) \<noteq> []" by simp
  from session_token_reuse[OF run2, THEN conjunct1, rule_format, OF held] first(1)
  have second: "PHPSESSID (snd run2) = PHPSESSID (snd run)"
    "\<forall>e\<in>set (exchanges (new_events (snd run) (snd run2))). carries ''test-session-id'' e"
    by simp_all
  from fresh ex tok len first second show ?thesis
    unfolding run_def ev_def rest_def run2_def list_all_iff by simp
qed

text \<open>
  Claim C2 as it is written promises exactly one session bootstrap for a client without
  a token. The client takes the empty string for "no token": when the server sets the
  cookie \<^verbatim>\<open>PHPSESSID\<close> with an empty value, the bootstrap succeeds, the token stays empty,
  and each of the four requests of the call triggers a bootstrap of its own.
\<close>

theorem session_token_reuse_counterexample:
  \<open>PHPSESSID new_client = [] \<and>
   fst (demo_fatify [(''PHPSESSID'', [])] 200 ''{"response":{"key":"abc123"}}'') = Inr ''DEADBEEF'' \<and>
   length (filter (is_step Bootstrap)
     (new_events new_client
        (snd (demo_fatify [(''PHPSESSID'', [])] 200 ''{"response":{"key":"abc123"}}'')))) = 4\<close>
  by code_simp

text \<open>
  Claim C3, as amended. In every execution of an effect operation, also one that fails,
  the first event is the \<^verbatim>\<open>io.ReadAll\<close> of the image stream and the stream is closed
  exactly once. The close is deferred to the return of the upload step: between the read
  and the close there are only the session bootstrap and the upload POST (when they are
  issued), and the effect invocation, the result-page fetch and the image download come
  after the close.
\<close>

theorem image_stream_closed_after_upload:
  assumes "applyEffectWithContext E img effectPath params effectName c = (r, c')"
  shows "\<exists>pre post.
           new_events c c' = ReadAllImage # pre @ CloseImage # post \<and>
           (\<forall>e\<in>set pre. is_step Bootstrap e \<or> is_step Upload e) \<and>
           (\<forall>e\<in>set post. is_step Bootstrap e \<or> is_step Effect e \<or> is_step ResultPage e \<or>
                is_step ImageDownload e)"
  using assms(1)
proof (cases rule: applyEffect_shape)
  case (1 pre post)
  from 1(2) have "\<forall>e\<in>set pre. is_step Bootstrap e \<or> is_step Upload e"
    unfolding only_steps_def by auto
  moreover from 1(3) have "\<forall>e\<in>set post. is_step Bootstrap e \<or> is_step Effect e \<or>
      is_step ResultPage e \<or> is_step ImageDownload e"
    unfolding only_steps_def by auto
  ultimately show ?thesis using 1(1) by blast
qed

theorem image_stream_closed_after_upload_witness:
  "\<exists>pre post.
     new_events new_client (snd (demo_clownify False)) = ReadAllImage # pre @ CloseImage # post \<and>
     (\<forall>e\<in>set pre. is_step Bootstrap e \<or> is_step Upload e) \<and>
     (\<forall>e\<in>set post. is_step Bootstrap e \<or> is_step Effect e \<or> is_step ResultPage e \<or>
          is_step ImageDownload e)"
proof -
  have "applyEffectWithContext
      (demo_env [(''PHPSESSID'', ''test-session-id'')] 200 ''{\"response\":{\"key\":\"abc123\"}}'')
      demo_image ''all_effects/clown''
      (map_set ''hat'' ''off'' (map_set ''image:crop'' ''0.0.961.1093''
         (map_set ''current-category'' ''all_effects'' []))) ''clownify'' new_client
      = (fst (demo_clownify False), snd (demo_clownify False))"
    by (simp add: demo_clownify_def ClownifyWithContext_def)
  then show ?thesis by (rule image_stream_closed_after_upload)
qed

text \<open>
  Claim C3 as it is written has the stream closed before the upload POST is issued. In
  the run of the test server the session bootstrap and the upload POST are both issued
  while the stream is still open: the close is the fourth event.
\<close>

theorem image_stream_close_counterexample:
  "list_ex (is_step Upload)
     (takeWhile (\<lambda>e. \<not> is_close e) (new_events new_client (snd (demo_clownify False)))) \<and>
   map is_close (new_events new_client (snd (demo_clownify False))) =
     [False, False, False, True, False, False, False]"
  by code_simp

text \<open>
  Claim C7. In every invocation of the clown effect, the body of the effect-invocation
  request is a multipart form whose fields are exactly: \<^verbatim>\<open>hat\<close>, with the value
  \<^verbatim>\<open>on\<close> when the hat option is set and \<^verbatim>\<open>off\<close> when it is not; the fixed parameters
  \<^verbatim>\<open>current-category\<close> and \<^verbatim>\<open>image:crop\<close> of the effect; and \<^verbatim>\<open>image\<close>, whose value
  is the key decoded from the response to the upload POST of the same call. (The order of
  the fields is the order of \<^verbatim>\<open>range\<close> over the parameter map, any permutation.)
\<close>

theorem clown_effect_fields:
  assumes "ClownifyWithContext E img includeHat c = (r, c')"
    and "Exchange Effect req res \<in> set (new_events c c')"
    and "\<forall>m. mset (map_range E m) = mset m"
  shows "\<exists>parts ureq uresp pr.
           Body req = Multipart defaultBoundary parts \<and>
           mset parts =
             {#FormField ''current-category'' ''all_effects'',
               FormField ''image:crop'' ''0.0.961.1093'',
               FormField ''hat'' (if includeHat then ''on'' else ''off''),
               FormField ''image'' (Key (Response pr))#} \<and>
           Exchange Upload ureq (Inr uresp) \<in> set (new_events c c') \<and>
           StatusCode uresp = 200 \<and>
           json_Decode E (RespBody uresp) = Some pr"
proof -
  define params where "params =
     map_set ''hat'' (if includeHat then ''on'' else ''off'')
       (map_set ''image:crop'' ''0.0.961.1093''
         (map_set ''current-category'' ''all_effects'' []))"
  have params: "params = [(''current-category'', ''all_effects''),
      (''image:crop'', ''0.0.961.1093''), (''hat'', if includeHat then ''on'' else ''off'')]"
    by (simp add: params_def)
  from assms(1) have run:
    "applyEffectWithContext E img ''all_effects/clown'' params ''clownify'' c = (r, c')"
    by (cases includeHat) (simp_all add: ClownifyWithContext_def params_def)
  from run show ?thesis
  proof (cases rule: applyEffect_shape)
    case (1 pre post)
    have "Exchange Effect req res \<notin> set pre"
      using only_steps_no_step[OF 1(2), of Effect req res] by auto
    with assms(2) 1(1) have inpost: "Exchange Effect req res \<in> set post" by auto
    then have "post \<noteq> []" by auto
    with 1(10) obtain ureq ures where u: "Exchange Upload ureq ures \<in> set pre" by blast
    note o = 1(9)[rule_format, OF u]
    from o \<open>post \<noteq> []\<close> obtain pr where pr: "upload_outcome E ures = Inr pr"
      by (cases "upload_outcome E ures") auto
    with o \<open>post \<noteq> []\<close> have key: "Key (Response pr) \<noteq> []" by auto
    with o pr inpost have body: "Body req = effect_body E params (Key (Response pr))" by auto
    from pr obtain uresp where up: "ures = Inr uresp" "StatusCode uresp = 200"
        "json_Decode E (RespBody uresp) = Some pr"
      by (auto simp: upload_outcome_def split: sum.splits if_splits option.splits)
    define parts where "parts = map (\<lambda>(key, value). FormField key value)
        (map_range E (map_set ''image'' (Key (Response pr)) params))"
    have "mset parts = image_mset (\<lambda>(key, value). FormField key value)
        (mset (map_set ''image'' (Key (Response pr)) params))"
      using assms(3) by (simp add: parts_def)
    also have "map_set ''image'' (Key (Response pr)) params =
        params @ [(''image'', Key (Response pr))]"
      by (simp add: params)
    finally have m: "mset parts =
             {#FormField ''current-category'' ''all_effects'',
               FormField ''image:crop'' ''0.0.961.1093'',
               FormField ''hat'' (if includeHat then ''on'' else ''off''),
               FormField ''image'' (Key (Response pr))#}"
      by (simp add: params)
    have b: "Body req = Multipart defaultBoundary parts"
      using body by (simp add: effect_body_def parts_def)
    have "Exchange Upload ureq (Inr uresp) \<in> set (new_events c c')" using u up 1(1) by simp
    with b m up show ?thesis by blast
  qed
qed

theorem clown_effect_fields_witness:
  \<open>(\<forall>m. mset (map_range
      (demo_env [(''PHPSESSID'', ''test-session-id'')] 200 ''{"response":{"key":"abc123"}}'') m)
        = mset m) \<and>
   Exchange Effect (request_of (new_events new_client (snd (demo_clownify True)) ! 4))
      (outcome_of (new_events new_client (snd (demo_clownify True)) ! 4))
     \<in> set (new_events new_client (snd (demo_clownify True))) \<and>
   Exchange Effect (request_of (new_events new_client (snd (demo_clownify False)) ! 4))
      (outcome_of (new_events new_client (snd (demo_clownify False)) ! 4))
     \<in> set (new_events new_client (snd (demo_clownify False))) \<and>
   (\<exists>parts ureq uresp pr.
      Body (request_of (new_events new_client (snd (demo_clownify True)) ! 4)) =
        Multipart defaultBoundary parts \<and>
      mset parts =
        {#FormField ''current-category'' ''all_effects'',
          FormField ''image:crop'' ''0.0.961.1093'',
          FormField ''hat'' ''on'',
          FormField ''image'' (Key (Response pr))#} \<and>
      Exchange Upload ureq (Inr uresp) \<in> set (new_events new_client (snd (demo_clownify True))) \<and>
      StatusCode uresp = 200 \<and>
      json_Decode
        (demo_env [(''PHPSESSID'', ''test-session-id'')] 200 ''{"response":{"key":"abc123"}}'')
        (RespBody uresp) = Some pr) \<and>
   (\<exists>parts ureq uresp pr.
      Body (request_of (new_events new_client (snd (demo_clownify False)) ! 4)) =
        Multipart defaultBoundary parts \<and>
      mset parts =
        {#FormField ''current-category'' ''all_effects'',
          FormField ''image:crop'' ''0.0.961.1093'',
          FormField ''hat'' ''off'',
          FormField ''image'' (Key (Response pr))#} \<and>
      Exchange Upload ureq (Inr uresp) \<in> set (new_events new_client (snd (demo_clownify False))) \<and>
      StatusCode uresp = 200 \<and>
      json_Decode
        (demo_env [(''PHPSESSID'', ''test-session-id'')] 200 ''{"response":{"key":"abc123"}}'')
        (RespBody uresp) = Some pr)\<close>
proof -
  define E where
    \<open>E = demo_env [(''PHPSESSID'', ''test-session-id'')] 200 ''{"response":{"key":"abc123"}}''\<close>
  have perm: "\<forall>m. mset (map_range E m) = mset m" by (simp add: E_def demo_env_def)
  have run: "ClownifyWithContext E demo_image hat new_client
      = (fst (demo_clownify hat), snd (demo_clownify hat))" for hat
    by (simp add: demo_clownify_def E_def)
  have on: "Exchange Effect (request_of (new_events new_client (snd (demo_clownify True)) ! 4))
      (outcome_of (new_events new_client (snd (demo_clownify True)) ! 4))
     \<in> set (new_events new_client (snd (demo_clownify True)))"
    by code_simp
  have off: "Exchange Effect (request_of (new_events new_client (snd (demo_clownify False)) ! 4))
      (outcome_of (new_events new_client (snd (demo_clownify False)) ! 4))
     \<in> set (new_events new_client (snd (demo_clownify False)))"
    by code_simp
  from clown_effect_fields[OF run on perm] clown_effect_fields[OF run off perm] perm on off
  show ?thesis unfolding E_def by simp
qed

lemma store_members_invariant:
  assumes "store_members field ms v = Some v'" and "P v"
    and "\<And>k j u u'. (k, j) \<in> set ms \<Longrightarrow> P u \<Longrightarrow> field k j u = Some u' \<Longrightarrow> P u'"
  shows "P v'"
  using assms
proof (induction ms arbitrary: v)
  case Nil
  then show ?case by simp
next
  case (Cons m ms)
  obtain k j where m: "m = (k, j)" by (cases m)
  with Cons.prems(1) obtain u where u: "field k j v = Some u" "store_members field ms u = Some v'"
    by (auto split: option.splits)
  have "P u" using Cons.prems(3)[of k j v u] Cons.prems(2) u(1) m by simp
  with Cons.IH[OF u(2)] Cons.prems(3) show ?case by auto
qed

lemma responseBody_field_no_key:
  assumes "\<not> name_match f k ''key''" and "responseBody_field f k j v = Some v'"
  shows "Key v' = Key v"
  using assms unfolding responseBody_field_def
  by (auto split: if_splits)

lemma unmarshal_no_key:
  assumes "unmarshal f j = Some pr" and "\<not> has_response_key f j"
  shows "Key (Response pr) = []"
proof (cases j)
  case JNull
  with assms(1) show ?thesis
    by (auto simp: unmarshal_def store_struct_def zero_photoFuniaResponse_def)
next
  case (JObject ms)
  with assms(1) have sm:
    "store_members (photoFuniaResponse_field f) ms zero_photoFuniaResponse = Some pr"
    by (simp add: unmarshal_def store_struct_def)
  have step: "Key (Response u') = []"
    if "(k, jv) \<in> set ms" "Key (Response u) = []" "photoFuniaResponse_field f k jv u = Some u'"
    for k jv u u'
  proof (cases "name_match f k ''response''")
    case False
    with that show ?thesis by (simp add: photoFuniaResponse_field_def)
  next
    case True
    with that(3) obtain x where x: "store_struct (responseBody_field f) jv (Response u) = Some x"
      "u' = u\<lparr>Response := x\<rparr>"
      by (auto simp: photoFuniaResponse_field_def)
    show ?thesis
    proof (cases jv)
      case JNull
      with x that(2) show ?thesis by (simp add: store_struct_def)
    next
      case (JObject ms')
      with x have sm': "store_members (responseBody_field f) ms' (Response u) = Some x"
        by (simp add: store_struct_def)
      have nokey: "\<not> name_match f k' ''key''" if "(k', v') \<in> set ms'" for k' v'
      proof
        assume "name_match f k' ''key''"
        with that have "list_ex (\<lambda>(k', v'). name_match f k' ''key'') ms'"
          unfolding list_ex_iff by (intro bexI[of _ "(k', v')"]) simp_all
        with \<open>(k, jv) \<in> set ms\<close> True JObject
        have "list_ex (\<lambda>(k, v). name_match f k ''response'' \<and>
             (case v of
                JObject ms' \<Rightarrow> list_ex (\<lambda>(k', v'). name_match f k' ''key'') ms'
              | _ \<Rightarrow> False)) ms"
          unfolding list_ex_iff by (intro bexI[of _ "(k, jv)"]) simp_all
        with \<open>j = JObject ms\<close> have "has_response_key f j"
          by (simp add: has_response_key_def)
        with assms(2) show False by simp
      qed
      have "Key x = []"
        using sm' that(2)
      proof (rule store_members_invariant[where P = "\<lambda>rb. Key rb = []"])
        fix k' j' rb rb'
        assume "(k', j') \<in> set ms'" "Key rb = []" "responseBody_field f k' j' rb = Some rb'"
        with nokey[of k' j'] responseBody_field_no_key[of f k' j' rb rb']
        show "Key rb' = []" by simp
      qed
      with x show ?thesis by simp
    qed (use x in \<open>simp_all add: store_struct_def\<close>)
  qed
  show ?thesis
    using sm
  proof (rule store_members_invariant[where P = "\<lambda>v. Key (Response v) = []"])
    show "Key (Response zero_photoFuniaResponse) = []" by (simp add: zero_photoFuniaResponse_def)
  qed (use step in blast)
qed (use assms(1) in \<open>simp_all add: unmarshal_def store_struct_def\<close>)

text \<open>
  Claim C9, as amended. When the upload response has status 200 and is JSON that the
  decoder stores into \<^verbatim>\<open>photoFuniaResponse\<close> without a type error, and it has no
  \<^verbatim>\<open>response.key\<close> member (under the name matching of \<^verbatim>\<open>encoding/json\<close>), the effect
  operation fails with \<open>EmptyKey\<close>, the error of an explicitly empty key: an absent key is
  not told from an empty one, and is not a decode failure.
\<close>

theorem absent_key_is_empty_key:
  assumes "applyEffectWithContext E img effectPath params effectName c = (r, c')"
    and "Exchange Upload req (Inr resp) \<in> set (new_events c c')"
    and "StatusCode resp = 200"
    and "json_scan E (RespBody resp) = Some j"
    and "unmarshal (foldName E) j = Some pr"
    and "\<not> has_response_key (foldName E) j"
  shows "r = Inl EmptyKey"
proof -
  from assms(4,5) have "json_Decode E (RespBody resp) = Some pr" by (simp add: json_Decode_def)
  moreover from assms(5,6) have "Key (Response pr) = []" by (rule unmarshal_no_key)
  ultimately show ?thesis using upload_empty_key[OF assms(1,2,3)] by simp
qed

theorem absent_key_is_empty_key_witness:
  \<open>Exchange Upload
      (request_of (new_events new_client
         (snd (demo_fatify [(''PHPSESSID'', ''abc'')] 200 ''{"response":{"server":1}}'')) ! 2))
      (Inr (projr (outcome_of (new_events new_client
         (snd (demo_fatify [(''PHPSESSID'', ''abc'')] 200 ''{"response":{"server":1}}'')) ! 2))))
     \<in> set (new_events new_client
         (snd (demo_fatify [(''PHPSESSID'', ''abc'')] 200 ''{"response":{"server":1}}''))) \<and>
   StatusCode (projr (outcome_of (new_events new_client
         (snd (demo_fatify [(''PHPSESSID'', ''abc'')] 200 ''{"response":{"server":1}}'')) ! 2))) = 200 \<and>
   json_scan (demo_env [(''PHPSESSID'', ''abc'')] 200 ''{"response":{"server":1}}'')
      (RespBody (projr (outcome_of (new_events new_client
         (snd (demo_fatify [(''PHPSESSID'', ''abc'')] 200 ''{"response":{"server":1}}'')) ! 2))))
     = Some (JObject [(''response'', JObject [(''server'', JInt 1)])]) \<and>
   unmarshal (\<lambda>name. name) (JObject [(''response'', JObject [(''server'', JInt 1)])]) \<noteq> None \<and>
   \<not> has_response_key (\<lambda>name. name) (JObject [(''response'', JObject [(''server'', JInt 1)])]) \<and>
   fst (demo_fatify [(''PHPSESSID'', ''abc'')] 200 ''{"response":{"server":1}}'') = Inl EmptyKey\<close>
proof -
  define E where \<open>E = demo_env [(''PHPSESSID'', ''abc'')] 200 ''{"response":{"server":1}}''\<close>
  define run where \<open>run = demo_fatify [(''PHPSESSID'', ''abc'')] 200 ''{"response":{"server":1}}''\<close>
  define ev where "ev = new_events new_client (snd run) ! 2"
  define j where "j = JObject [(''response'', JObject [(''server'', JInt 1)])]"
  let ?req = "request_of ev" and ?resp = "projr (outcome_of ev)"
  have run: "applyEffectWithContext E demo_image
      ''faces/fat_maker''
      (map_set ''size'' ''XXXXXL''
         (map_set ''image:crop'' ''0.0.961.1093''
          (map_set ''current-category'' ''faces'' []))) ''fatify'' new_client = (fst run, snd run)"
    by (simp add: run_def E_def demo_fatify_def FatifyWithContext_def)
  have fold: "foldName E = (\<lambda>name. name)" by (simp add: E_def demo_env_def)
  have mem: "Exchange Upload ?req (Inr ?resp) \<in> set (new_events new_client (snd run))"
    unfolding ev_def run_def by code_simp
  have code: "StatusCode ?resp = 200" unfolding ev_def run_def by code_simp
  have scan: "json_scan E (RespBody ?resp) = Some j" unfolding ev_def run_def E_def j_def by code_simp
  have dec: "unmarshal (foldName E) j = Some (the (unmarshal (foldName E) j))"
    unfolding fold j_def by code_simp
  have nokey: "\<not> has_response_key (foldName E) j" unfolding fold j_def by code_simp
  have dec': "unmarshal (\<lambda>name. name) j \<noteq> None" unfolding j_def by code_simp
  have nokey': "\<not> has_response_key (\<lambda>name. name) j" unfolding j_def by code_simp
  have res: "fst run = Inl EmptyKey"
    by (rule absent_key_is_empty_key[OF run mem code scan dec nokey])
  from res mem code scan dec' nokey'
  show ?thesis unfolding run_def ev_def E_def j_def by (intro conjI)
qed

text \<open>
  Claim C9 as it is written covers every well-formed JSON response without
  \<^verbatim>\<open>response.key\<close>. The decoder is typed by \<^verbatim>\<open>models.go\<close>: in
  \<^verbatim>\<open>{"response":{"server":"1"}}\<close> the key is absent and \<^verbatim>\<open>server\<close>, declared \<^verbatim>\<open>int\<close>,
  is a string, so the response fails to decode and the error is \<open>DecodeFailed\<close>.
\<close>

theorem absent_key_counterexample:
  \<open>json_scan (demo_env [(''PHPSESSID'', ''abc'')] 200 ''{"response":{"server":"1"}}'')
      (RespBody (projr (outcome_of (new_events new_client
         (snd (demo_fatify [(''PHPSESSID'', ''abc'')] 200 ''{"response":{"server":"1"}}'')) ! 2))))
     = Some (JObject [(''response'', JObject [(''server'', JString ''1'')])]) \<and>
   \<not> has_response_key (\<lambda>name. name)
       (JObject [(''response'', JObject [(''server'', JString ''1'')])]) \<and>
   is_step Upload (new_events new_client
         (snd (demo_fatify [(''PHPSESSID'', ''abc'')] 200 ''{"response":{"server":"1"}}'')) ! 2) \<and>
   fst (demo_fatify [(''PHPSESSID'', ''abc'')] 200 ''{"response":{"server":"1"}}'')
     = Inl DecodeFailed\<close>
  by code_simp

end
